theory Spec2Isabelle
  imports Complex_Main "HOL-Library.Word" "HOL-Library.Multiset"
begin

section \<open>JavaScript strings\<close>

text \<open>
  A JavaScript string is a sequence of 16-bit code units. \<open>js\<close> writes an ASCII
  literal as such a sequence.
\<close>

type_synonym jsstring = "16 word list"

definition js :: "string \<Rightarrow> jsstring" where
  "js s = map (\<lambda>c. of_nat (of_char c)) s"

text \<open>
  \<open>String.prototype.trim\<close> removes the ECMAScript WhiteSpace and LineTerminator
  code points (all of them in the basic plane) from both ends.
\<close>

definition isWhiteSpace :: "16 word \<Rightarrow> bool" where
  "isWhiteSpace c \<longleftrightarrow>
     c \<in> {0x09, 0x0A, 0x0B, 0x0C, 0x0D, 0x20, 0xA0, 0x1680, 0x2028, 0x2029,
          0x202F, 0x205F, 0x3000, 0xFEFF}
     \<or> (0x2000 \<le> c \<and> c \<le> 0x200A)"

definition trim :: "jsstring \<Rightarrow> jsstring" where
  "trim s = rev (dropWhile isWhiteSpace (rev (dropWhile isWhiteSpace s)))"

text \<open>
  \<open>String.prototype.toUpperCase\<close> is the full Unicode case mapping of the platform.
  The functions below take it as a parameter; \<open>toUpperCaseAscii\<close> is its restriction
  to strings whose only letters are ASCII, used at concrete inputs.
\<close>

definition toUpperCaseAscii :: "jsstring \<Rightarrow> jsstring" where
  "toUpperCaseAscii s = map (\<lambda>c. if 0x61 \<le> c \<and> c \<le> 0x7A then c - 0x20 else c) s"

section \<open>Data model (mock-client.tsx, route.ts)\<close>

datatype qtype = Mcq | Value

record MockOption =
  key :: jsstring
  html :: jsstring

record QuestionSource =
  src_file :: jsstring
  recordTitle :: "jsstring option"

text \<open>The fields \<open>id\<close>, \<open>subject\<close>, \<open>chapter\<close> and \<open>type\<close> carry the prefix \<open>q_\<close> here.\<close>

record MockQuestion =
  q_id :: jsstring
  q_subject :: jsstring
  q_chapter :: jsstring
  q_type :: qtype
  examHtml :: jsstring
  promptHtml :: jsstring
  options :: "MockOption list"
  correctAnswer :: "jsstring option"
  source :: "QuestionSource option"

record MockPayload =
  createdAt :: jsstring
  expiresAt :: jsstring
  durationSeconds :: real
  maxQuestions :: real
  chapters :: "jsstring list"
  questions :: "MockQuestion list"

section \<open>Scoring engine (mock-client.tsx, computeResult)\<close>

definition MARKS_CORRECT :: int where "MARKS_CORRECT = 4"
definition MARKS_WRONG :: int where "MARKS_WRONG = - 1"

definition norm :: "(jsstring \<Rightarrow> jsstring) \<Rightarrow> jsstring \<Rightarrow> jsstring" where
  "norm toUpperCase x = toUpperCase (trim x)"

datatype Verdict = Correct | Wrong | Unattempted

record BreakdownRow =
  row_index :: nat
  row_id :: jsstring
  row_chapter :: jsstring
  row_type :: qtype
  userAnswer :: jsstring
  row_correctAnswer :: jsstring
  verdict :: Verdict
  marks :: int

record ComputedResult =
  totalQuestions :: nat
  attempted :: nat
  correct :: nat
  wrong :: nat
  unattempted :: nat
  marksCorrect :: int
  marksWrong :: int
  netMarks :: int
  maxMarks :: int
  accuracyPercent :: real
  scorePercent :: real
  breakdown :: "BreakdownRow list"

text \<open>The four counters and the rows that the loop of \<open>computeResult\<close> updates.\<close>

record ScoreAcc =
  acc_attempted :: nat
  acc_correct :: nat
  acc_wrong :: nat
  acc_unattempted :: nat
  acc_breakdown :: "BreakdownRow list"

definition orDash :: "jsstring \<Rightarrow> jsstring" where
  "orDash s = (if s = [] then js ''-'' else s)"

text \<open>One iteration of the loop body, for the question \<open>q\<close> at position \<open>i\<close>.\<close>

definition scoreStep ::
  "(jsstring \<Rightarrow> jsstring) \<Rightarrow> (jsstring \<rightharpoonup> jsstring) \<Rightarrow> nat \<Rightarrow> MockQuestion \<Rightarrow> ScoreAcc \<Rightarrow> ScoreAcc"
where
  "scoreStep toUpperCase answers i q acc =
    (let ua = trim (case answers (q_id q) of None \<Rightarrow> [] | Some a \<Rightarrow> a);
         ca = trim (case correctAnswer q of None \<Rightarrow> [] | Some c \<Rightarrow> c);
         row = (\<lambda>v m. \<lparr> row_index = i, row_id = q_id q, row_chapter = q_chapter q,
                         row_type = q_type q, userAnswer = orDash ua,
                         row_correctAnswer = orDash ca, verdict = v, marks = m \<rparr>)
     in if ua = [] then
          acc\<lparr> acc_unattempted := acc_unattempted acc + 1,
               acc_breakdown := acc_breakdown acc @ [row Unattempted 0] \<rparr>
        else if ca \<noteq> [] \<and> norm toUpperCase ua = norm toUpperCase ca then
          acc\<lparr> acc_attempted := acc_attempted acc + 1,
               acc_correct := acc_correct acc + 1,
               acc_breakdown := acc_breakdown acc @ [row Correct MARKS_CORRECT] \<rparr>
        else
          acc\<lparr> acc_attempted := acc_attempted acc + 1,
               acc_wrong := acc_wrong acc + 1,
               acc_breakdown := acc_breakdown acc @ [row Wrong MARKS_WRONG] \<rparr>)"

fun scoreLoop ::
  "(jsstring \<Rightarrow> jsstring) \<Rightarrow> (jsstring \<rightharpoonup> jsstring) \<Rightarrow> nat \<Rightarrow> MockQuestion list \<Rightarrow> ScoreAcc \<Rightarrow> ScoreAcc"
where
  "scoreLoop toUpperCase answers i [] acc = acc"
| "scoreLoop toUpperCase answers i (q # qs) acc =
     scoreLoop toUpperCase answers (Suc i) qs (scoreStep toUpperCase answers i q acc)"

text \<open>\<open>Math.round\<close>: the nearest integer, halves rounded up.\<close>

definition mathRound :: "real \<Rightarrow> real" where
  "mathRound x = of_int \<lfloor>x + 1 / 2\<rfloor>"

text \<open>
  JavaScript numbers are IEEE 754 doubles. \<open>toDouble x\<close> is the double nearest to the
  real \<open>x\<close>, ties to the even significand: \<open>binade x\<close> is the exponent \<open>e\<close> with
  \<open>2^e \<le> |x| < 2^(e+1)\<close> and the significand has 53 bits. The exponent range of the
  format is not modelled; the quotients and products of \<open>computeResult\<close> lie far inside
  it. \<open>jsMul\<close> and \<open>jsDiv\<close> are \<open>*\<close> and \<open>/\<close> on doubles: the exact result, rounded.
\<close>

definition pow2 :: "int \<Rightarrow> real" where
  "pow2 k = (if 0 \<le> k then 2 ^ nat k else 1 / 2 ^ nat (- k))"

definition binade :: "real \<Rightarrow> int" where
  "binade x = \<lfloor>log 2 \<bar>x\<bar>\<rfloor>"

definition roundTiesToEven :: "real \<Rightarrow> int" where
  "roundTiesToEven x =
    (let f = \<lfloor>x\<rfloor>; d = x - of_int f
     in if d < 1 / 2 then f else if 1 / 2 < d then f + 1 else if even f then f else f + 1)"

definition toDouble :: "real \<Rightarrow> real" where
  "toDouble x =
    (if x = 0 then 0
     else let u = pow2 (binade x - 52) in of_int (roundTiesToEven (x / u)) * u)"

definition jsMul :: "real \<Rightarrow> real \<Rightarrow> real" where
  "jsMul a b = toDouble (a * b)"

definition jsDiv :: "real \<Rightarrow> real \<Rightarrow> real" where
  "jsDiv a b = toDouble (a / b)"

text \<open>
  The counters and marks are integers, as in the source (they are far below \<open>2^53\<close>, so
  the doubles that hold them are exact); the two percentages are computed in double
  arithmetic, operation by operation.
\<close>

definition computeResult ::
  "(jsstring \<Rightarrow> jsstring) \<Rightarrow> MockPayload \<Rightarrow> (jsstring \<rightharpoonup> jsstring) \<Rightarrow> ComputedResult"
where
  "computeResult toUpperCase mock answers =
    (let acc = scoreLoop toUpperCase answers 0 (questions mock)
                 \<lparr> acc_attempted = 0, acc_correct = 0, acc_wrong = 0,
                   acc_unattempted = 0, acc_breakdown = [] \<rparr>;
         mc = int (acc_correct acc) * MARKS_CORRECT;
         mw = int (acc_wrong acc) * MARKS_WRONG;
         net = mc + mw;
         mx = int (length (questions mock)) * MARKS_CORRECT;
         accuracy = (if acc_attempted acc > 0
                     then jsDiv (mathRound (jsMul (jsDiv (real (acc_correct acc))
                                                         (real (acc_attempted acc))) 1000)) 10
                     else 0);
         scorePercentRaw = (if mx > 0 then jsMul (jsDiv (real_of_int net) (real_of_int mx)) 100
                            else 0)
     in \<lparr> totalQuestions = length (questions mock),
          attempted = acc_attempted acc,
          correct = acc_correct acc,
          wrong = acc_wrong acc,
          unattempted = acc_unattempted acc,
          marksCorrect = mc,
          marksWrong = mw,
          netMarks = net,
          maxMarks = mx,
          accuracyPercent = accuracy,
          scorePercent = max 0 (jsDiv (mathRound (jsMul scorePercentRaw 10)) 10),
          breakdown = acc_breakdown acc \<rparr>)"

text \<open>
  The scoring rule in the words of the specification: an empty trimmed answer is
  unattempted; otherwise the trimmed, case-folded answer is compared with the trimmed,
  case-folded correct answer (the empty string when there is none).
\<close>

definition specScore ::
  "(jsstring \<Rightarrow> jsstring) \<Rightarrow> (jsstring \<rightharpoonup> jsstring) \<Rightarrow> MockQuestion \<Rightarrow> Verdict \<times> int"
where
  "specScore toUpperCase answers q =
    (let a = (case answers (q_id q) of None \<Rightarrow> [] | Some a \<Rightarrow> a);
         c = (case correctAnswer q of None \<Rightarrow> [] | Some c \<Rightarrow> c)
     in if trim a = [] then (Unattempted, 0)
        else if toUpperCase (trim a) = toUpperCase (trim c) then (Correct, 4)
        else (Wrong, - 1))"

section \<open>Concrete inputs\<close>

definition question0 :: "jsstring \<Rightarrow> jsstring option \<Rightarrow> MockQuestion" where
  "question0 i ca = \<lparr> q_id = i, q_subject = js ''physics'', q_chapter = js ''kinematics'',
      q_type = Value, examHtml = [], promptHtml = js ''?'', options = [],
      correctAnswer = ca, source = None \<rparr>"

definition mock0 :: MockPayload where
  "mock0 = \<lparr> createdAt = [], expiresAt = [], durationSeconds = 1200, maxQuestions = 10,
      chapters = [js ''kinematics''],
      questions = [question0 (js ''q1'') (Some (js ''A'')), question0 (js ''q2'') (Some (js ''42''))] \<rparr>"

definition answers0 :: "jsstring \<rightharpoonup> jsstring" where
  "answers0 = [js ''q1'' \<mapsto> js '' a'', js ''q2'' \<mapsto> js ''43'']"

definition answersWrong :: "jsstring \<rightharpoonup> jsstring" where
  "answersWrong = [js ''q1'' \<mapsto> js ''B'', js ''q2'' \<mapsto> js ''43'']"

definition mock20 :: MockPayload where
  "mock20 = mock0\<lparr> questions :=
     map (\<lambda>i. question0 (js i) (Some (js ''A'')))
       [''q01'', ''q02'', ''q03'', ''q04'', ''q05'', ''q06'', ''q07'', ''q08'', ''q09'', ''q10'',
        ''q11'', ''q12'', ''q13'', ''q14'', ''q15'', ''q16'', ''q17'', ''q18'', ''q19'', ''q20''] \<rparr>"

definition answers20 :: "jsstring \<rightharpoonup> jsstring" where
  "answers20 = [js ''q01'' \<mapsto> js ''A'', js ''q02'' \<mapsto> js ''A'', js ''q03'' \<mapsto> js ''A'',
                js ''q04'' \<mapsto> js ''A'', js ''q05'' \<mapsto> js ''A'', js ''q06'' \<mapsto> js ''A'',
                js ''q07'' \<mapsto> js ''B'']"

section \<open>Exam session (mock-client.tsx, MockClient)\<close>

definition TIME_LIMIT_SECONDS :: real where "TIME_LIMIT_SECONDS = 20 * 60"

text \<open>
  The component state. \<open>mock\<close> is \<open>None\<close> until the token has been decoded.
\<close>

record Session =
  mock :: "MockPayload option"
  token :: jsstring
  answers :: "jsstring \<rightharpoonup> jsstring"
  current :: nat
  remainingMs :: real
  submitted :: bool
  showModal :: bool

definition initialSession :: Session where
  "initialSession = \<lparr> mock = None, token = [], answers = Map.empty, current = 0,
      remainingMs = TIME_LIMIT_SECONDS * 1000, submitted = False, showModal = False \<rparr>"

definition newSessionStartKey :: "jsstring \<Rightarrow> jsstring" where
  "newSessionStartKey t = js ''mock_start_v1:'' @ take 48 t"

text \<open>
  \<open>localStorage\<close> as a map from keys to the number that \<open>Number\<close> reads from the stored
  string, \<open>None\<close> when the key is absent or the string is not a finite number. The
  result is the session start and the updated storage.
\<close>

definition readOrInitSessionStart ::
  "(jsstring \<rightharpoonup> real) \<Rightarrow> jsstring \<Rightarrow> real \<Rightarrow> real \<times> (jsstring \<rightharpoonup> real)"
where
  "readOrInitSessionStart storage t now =
    (let k = newSessionStartKey t
     in case storage k of
          Some v \<Rightarrow> if v > 0 then (v, storage) else (now, storage(k \<mapsto> now))
        | None \<Rightarrow> (now, storage(k \<mapsto> now)))"

text \<open>The state setters that the timer calls, as values.\<close>

datatype Call = SetRemainingMs real | SetSubmitted bool | SetShowModal bool

fun applyCall :: "Session \<Rightarrow> Call \<Rightarrow> Session" where
  "applyCall s (SetRemainingMs v) = s\<lparr> remainingMs := v \<rparr>"
| "applyCall s (SetSubmitted b) = s\<lparr> submitted := b \<rparr>"
| "applyCall s (SetShowModal b) = s\<lparr> showModal := b \<rparr>"

text \<open>The body of \<open>tick\<close>: the setters it calls at time \<open>now\<close>.\<close>

definition tick :: "real \<Rightarrow> real \<Rightarrow> Call list" where
  "tick start now =
    (let elapsed = now - start;
         left = TIME_LIMIT_SECONDS * 1000 - elapsed
     in SetRemainingMs left # (if left \<le> 0 then [SetSubmitted True, SetShowModal True] else []))"

text \<open>
  The timer effect depends on \<open>token\<close> and \<open>submitted\<close>: it is torn down and run again
  when either changes, and it installs the interval (and ticks once at once) only when
  the token is non-empty and the session is not submitted. So a firing of the timer
  in state \<open>s\<close> runs \<open>tick\<close> exactly when that guard passes; otherwise there is no
  interval and nothing is called.
\<close>

definition timerFire :: "real \<Rightarrow> real \<Rightarrow> Session \<Rightarrow> Session \<times> Call list" where
  "timerFire start now s =
    (if token s = [] \<or> submitted s then (s, [])
     else (foldl applyCall s (tick start now), tick start now))"

text \<open>A sequence of firings at the given times; the calls of all of them, in order.\<close>

fun runTimer :: "real \<Rightarrow> real list \<Rightarrow> Session \<Rightarrow> Session \<times> Call list" where
  "runTimer start [] s = (s, [])"
| "runTimer start (now # nows) s =
    (let (s1, cs1) = timerFire start now s;
         (s2, cs2) = runTimer start nows s1
     in (s2, cs1 @ cs2))"

definition submitNow :: "Session \<Rightarrow> Session" where
  "submitNow s = s\<lparr> submitted := True, showModal := True \<rparr>"

definition mock60 :: MockPayload where
  "mock60 = mock0\<lparr> durationSeconds := 60 \<rparr>"

definition session60 :: Session where
  "session60 = initialSession\<lparr> mock := Some mock60, token := js ''H4sIAAAAAAAAA'' \<rparr>"

section \<open>Mock assembly: request parameters (route.ts, GET)\<close>

text \<open>
  A JavaScript number: not-a-number, an infinity, or a finite value. The finite values
  are taken in exact arithmetic; \<open>min\<close>, \<open>max\<close> and comparisons are exact on doubles.
\<close>

datatype jsnum = NaN | NegInf | Fin real | PosInf

fun truthyNum :: "jsnum \<Rightarrow> bool" where
  "truthyNum NaN = False"
| "truthyNum (Fin x) = (x \<noteq> 0)"
| "truthyNum NegInf = True"
| "truthyNum PosInf = True"

fun mathMax :: "jsnum \<Rightarrow> jsnum \<Rightarrow> jsnum" where
  "mathMax NaN y = NaN"
| "mathMax x NaN = NaN"
| "mathMax PosInf y = PosInf"
| "mathMax x PosInf = PosInf"
| "mathMax NegInf y = y"
| "mathMax x NegInf = x"
| "mathMax (Fin a) (Fin b) = Fin (max a b)"

fun mathMin :: "jsnum \<Rightarrow> jsnum \<Rightarrow> jsnum" where
  "mathMin NaN y = NaN"
| "mathMin x NaN = NaN"
| "mathMin NegInf y = NegInf"
| "mathMin x NegInf = NegInf"
| "mathMin PosInf y = y"
| "mathMin x PosInf = x"
| "mathMin (Fin a) (Fin b) = Fin (min a b)"

text \<open>
  A numeric query parameter is \<open>None\<close> when the request does not carry it, and
  otherwise the number that \<open>Number\<close> reads from its text (\<open>NaN\<close> for text that is
  not a number). \<open>numberParam v d\<close> is \<open>Number(searchParams.get(..) ?? "d")\<close> and
  \<open>orElse x d\<close> is \<open>x || d\<close>.
\<close>

definition numberParam :: "jsnum option \<Rightarrow> real \<Rightarrow> jsnum" where
  "numberParam v d = (case v of None \<Rightarrow> Fin d | Some x \<Rightarrow> x)"

definition orElse :: "jsnum \<Rightarrow> jsnum \<Rightarrow> jsnum" where
  "orElse x d = (if truthyNum x then x else d)"

definition maxQuestionsOf :: "jsnum option \<Rightarrow> jsnum" where
  "maxQuestionsOf v = mathMin (Fin 10) (mathMax (Fin 1) (orElse (numberParam v 10) (Fin 10)))"

definition durationSecondsOf :: "jsnum option \<Rightarrow> jsnum" where
  "durationSecondsOf v =
     mathMin (Fin (60 * 60)) (mathMax (Fin 60) (orElse (numberParam v 1200) (Fin 1200)))"

text \<open>
  The parameter rule in the words of the specification: the requested value clamped to
  the range, the default when the parameter is absent.
\<close>

fun clampTo :: "real \<Rightarrow> real \<Rightarrow> jsnum \<Rightarrow> jsnum" where
  "clampTo lo hi (Fin x) = Fin (max lo (min hi x))"
| "clampTo lo hi NegInf = Fin lo"
| "clampTo lo hi PosInf = Fin hi"
| "clampTo lo hi NaN = NaN"

definition specParam :: "real \<Rightarrow> real \<Rightarrow> real \<Rightarrow> jsnum option \<Rightarrow> jsnum" where
  "specParam lo hi d v = (case v of None \<Rightarrow> Fin d | Some x \<Rightarrow> clampTo lo hi x)"

section \<open>Mock assembly: records and normalisation (route.ts)\<close>

text \<open>
  A question and a record of a chapter file, as \<open>ChapterRecord\<close> declares them. The
  fields \<open>subject\<close>, \<open>topic\<close>, \<open>file\<close>, \<open>title\<close> and \<open>questions\<close> of the record
  carry the prefix \<open>rec_\<close>, and \<open>number\<close> is \<open>q_number\<close>.
\<close>

record RawQuestion =
  q_number :: "real option"
  question_type :: "qtype option"
  exam_html :: "jsstring option"
  text_html :: jsstring
  options_html :: "jsstring option"
  explanation_html :: "jsstring option"

record ChapterRecord =
  rec_subject :: jsstring
  rec_topic :: jsstring
  rec_file :: jsstring
  rel_path :: "jsstring option"
  rec_title :: "jsstring option"
  rec_questions :: "RawQuestion list"
  answer_key :: "jsstring list option"

text \<open>\<open>s || ""\<close> for an optional string.\<close>

definition orEmpty :: "jsstring option \<Rightarrow> jsstring" where
  "orEmpty s = (case s of None \<Rightarrow> [] | Some x \<Rightarrow> x)"

text \<open>\<open>String(n)\<close> for a natural number: its decimal digits.\<close>

fun showNat :: "nat \<Rightarrow> jsstring" where
  "showNat n = (if n < 10 then [of_nat (48 + n)] else showNat (n div 10) @ [of_nat (48 + n mod 10)])"

declare showNat.simps [simp del]

definition letters :: jsstring where
  "letters = js ''ABCDEFGHIJKLMNOPQRSTUVWXYZ''"

text \<open>
  \<open>listItems html\<close> stands for the HTML parser: the inner HTML of every \<open>li\<close> element
  found in the fragment, in document order.
\<close>

definition parseOptions :: "(jsstring \<Rightarrow> jsstring list) \<Rightarrow> jsstring \<Rightarrow> MockOption list" where
  "parseOptions listItems optionsHtml =
    (let h = trim optionsHtml
     in if h = [] then []
        else let lis = listItems h
             in if lis = [] then [\<lparr> key = js ''A'', html = h \<rparr>]
                else map (\<lambda>(i, inner).
                            \<lparr> key = (if i < length letters then [letters ! i] else showNat (i + 1)),
                              html = trim inner \<rparr>)
                         (enumerate 0 lis))"

definition inferCorrectAnswer :: "ChapterRecord \<Rightarrow> nat \<Rightarrow> jsstring option" where
  "inferCorrectAnswer record qIndex =
    (case answer_key record of
       None \<Rightarrow> None
     | Some ak \<Rightarrow>
         if length ak \<le> qIndex then None
         else let raw = trim (ak ! qIndex) in if raw = [] then None else Some raw)"

text \<open>The question type that the assembly loop infers for a raw question.\<close>

definition inferType :: "RawQuestion \<Rightarrow> qtype" where
  "inferType q =
    (case question_type q of
       Some t \<Rightarrow> t
     | None \<Rightarrow> if trim (orEmpty (options_html q)) \<noteq> [] then Mcq else Value)"

text \<open>The object pushed to the pool for question \<open>i\<close> of a record.\<close>

definition poolEntry ::
  "(jsstring \<Rightarrow> jsstring list) \<Rightarrow> jsstring \<Rightarrow> jsstring \<Rightarrow> ChapterRecord \<Rightarrow> nat \<Rightarrow> RawQuestion \<Rightarrow> MockQuestion"
where
  "poolEntry listItems subjectName chapter record i q =
    (let qt = inferType q
     in \<lparr> q_id = subjectName @ js ''::'' @ chapter @ js ''::'' @ rec_file record @ js ''::'' @ showNat i,
          q_subject = subjectName,
          q_chapter = chapter,
          q_type = qt,
          examHtml = trim (orEmpty (exam_html q)),
          promptHtml = trim (text_html q),
          options = (if qt = Mcq then parseOptions listItems (orEmpty (options_html q)) else []),
          correctAnswer = inferCorrectAnswer record i,
          source = Some \<lparr> src_file = rec_file record, recordTitle = rec_title record \<rparr> \<rparr>)"

definition recordEntries ::
  "(jsstring \<Rightarrow> jsstring list) \<Rightarrow> jsstring \<Rightarrow> jsstring \<Rightarrow> ChapterRecord \<Rightarrow> MockQuestion list"
where
  "recordEntries listItems subjectName chapter record =
     map (\<lambda>(i, q). poolEntry listItems subjectName chapter record i q)
         (enumerate 0 (rec_questions record))"

section \<open>Storage record files (both route.ts files, parseJsonl)\<close>

text \<open>\<open>text.split(/\r?\n/)\<close>: a break at every line feed, which takes one carriage
  return before it along. The first argument is the current line, reversed.\<close>

fun splitLinesFrom :: "jsstring \<Rightarrow> jsstring \<Rightarrow> jsstring list" where
  "splitLinesFrom cur [] = [rev cur]"
| "splitLinesFrom cur (c # cs) =
     (if c = 0x0A
      then rev (case cur of [] \<Rightarrow> [] | d # r \<Rightarrow> if d = 0x0D then r else d # r) # splitLinesFrom [] cs
      else splitLinesFrom (c # cur) cs)"

definition nonBlankLines :: "jsstring \<Rightarrow> jsstring list" where
  "nonBlankLines t = filter (\<lambda>l. length (trim l) > 0) (splitLinesFrom [] t)"

text \<open>
  \<open>JSON.parse\<close> is a parameter: \<open>Inr\<close> the parsed value, \<open>Inl\<close> the message of the
  SyntaxError it throws.
\<close>

type_synonym 'r jsonParser = "jsstring \<Rightarrow> jsstring + 'r"

record 'r TopicParse =
  tp_data :: "'r list"
  parseErrors :: "(nat \<times> jsstring) list"
  totalLines :: nat

text \<open>The loop of the topic route's \<open>parseJsonl\<close>, from line index \<open>i\<close>.\<close>

fun parseLinesTopic :: "'r jsonParser \<Rightarrow> nat \<Rightarrow> jsstring list \<Rightarrow> 'r list \<times> (nat \<times> jsstring) list" where
  "parseLinesTopic jsonParse i [] = ([], [])"
| "parseLinesTopic jsonParse i (l # ls) =
    (let (d, e) = parseLinesTopic jsonParse (Suc i) ls
     in case jsonParse l of
          Inr v \<Rightarrow> (v # d, e)
        | Inl msg \<Rightarrow> (d, (i + 1, msg) # e))"

definition parseJsonl_topic :: "'r jsonParser \<Rightarrow> jsstring \<Rightarrow> 'r TopicParse" where
  "parseJsonl_topic jsonParse t =
    (let ls = nonBlankLines t; (d, e) = parseLinesTopic jsonParse 0 ls
     in \<lparr> tp_data = d, parseErrors = e, totalLines = length ls \<rparr>)"

text \<open>A fetched resource: \<open>Inl\<close> the status of a response that is not ok, \<open>Inr\<close> its text.\<close>

type_synonym fetched = "nat + jsstring"

datatype 'r TopicBody =
  FetchFailed nat
  | NoValidLines "(nat \<times> jsstring) list"
  | TopicData nat "(nat \<times> jsstring) list" "'r list"

definition GET_topic :: "'r jsonParser \<Rightarrow> fetched \<Rightarrow> nat \<times> 'r TopicBody" where
  "GET_topic jsonParse res =
    (case res of
       Inl st \<Rightarrow> (if st = 404 then 404 else 500, FetchFailed st)
     | Inr t \<Rightarrow>
         let p = parseJsonl_topic jsonParse t
         in if totalLines p > 0 \<and> length (tp_data p) = 0
            then (500, NoValidLines (take 10 (parseErrors p)))
            else (200, TopicData (length (tp_data p)) (take 10 (parseErrors p)) (tp_data p)))"

text \<open>
  The assembly route's \<open>parseJsonl\<close> calls \<open>JSON.parse\<close> on every line with no handler:
  the first line that does not parse throws, which is the result \<open>Inl\<close>.
\<close>

fun parseLinesMock :: "'r jsonParser \<Rightarrow> jsstring list \<Rightarrow> jsstring + 'r list" where
  "parseLinesMock jsonParse [] = Inr []"
| "parseLinesMock jsonParse (l # ls) =
    (case jsonParse l of
       Inl msg \<Rightarrow> Inl msg
     | Inr v \<Rightarrow> (case parseLinesMock jsonParse ls of Inl msg \<Rightarrow> Inl msg | Inr vs \<Rightarrow> Inr (v # vs)))"

definition parseJsonl_mock :: "'r jsonParser \<Rightarrow> jsstring \<Rightarrow> jsstring + 'r list" where
  "parseJsonl_mock jsonParse t = parseLinesMock jsonParse (nonBlankLines t)"

section \<open>Mock assembly: pool and sampler (route.ts)\<close>

text \<open>
  The work of the assembly for one resolved chapter: a response that is not ok
  contributes nothing, a file that does not parse throws.
  \<open>fetchChapter subjectName chapter\<close> is the fetch of the chapter's file.
\<close>

definition chapterEntries ::
  "ChapterRecord jsonParser \<Rightarrow> (jsstring \<Rightarrow> jsstring list) \<Rightarrow> (jsstring \<Rightarrow> jsstring \<Rightarrow> fetched)
     \<Rightarrow> jsstring \<Rightarrow> jsstring \<Rightarrow> jsstring + MockQuestion list"
where
  "chapterEntries jsonParse listItems fetchChapter subjectName chapter =
    (case fetchChapter subjectName chapter of
       Inl st \<Rightarrow> Inr []
     | Inr t \<Rightarrow>
         (case parseJsonl_mock jsonParse t of
            Inl msg \<Rightarrow> Inl msg
          | Inr records \<Rightarrow> Inr (concat (map (recordEntries listItems subjectName chapter) records))))"

text \<open>
  The pool over the resolved chapters, filled in their order (the completion order of
  the fetches decides it in the source); a throw in any chapter rejects the request.
\<close>

fun buildPool ::
  "ChapterRecord jsonParser \<Rightarrow> (jsstring \<Rightarrow> jsstring list) \<Rightarrow> (jsstring \<Rightarrow> jsstring \<Rightarrow> fetched)
     \<Rightarrow> (jsstring \<rightharpoonup> jsstring) \<Rightarrow> jsstring list \<Rightarrow> jsstring + MockQuestion list"
where
  "buildPool jsonParse listItems fetchChapter chapterToSubject [] = Inr []"
| "buildPool jsonParse listItems fetchChapter chapterToSubject (c # cs) =
    (case chapterEntries jsonParse listItems fetchChapter (orEmpty (chapterToSubject c)) c of
       Inl msg \<Rightarrow> Inl msg
     | Inr qs \<Rightarrow>
         (case buildPool jsonParse listItems fetchChapter chapterToSubject cs of
            Inl msg \<Rightarrow> Inl msg
          | Inr rest \<Rightarrow> Inr (qs @ rest)))"

text \<open>
  \<open>randomPick\<close>. \<open>rnd k\<close> is the value of the \<open>k\<close>-th call of \<open>Math.random\<close>, a number in
  [0, 1). The loop runs \<open>i\<close> from the last index down to 1.
\<close>

fun shuffleLoop :: "(nat \<Rightarrow> real) \<Rightarrow> nat \<Rightarrow> nat \<Rightarrow> 'a list \<Rightarrow> 'a list" where
  "shuffleLoop rnd k 0 a = a"
| "shuffleLoop rnd k (Suc i) a =
    (let j = nat \<lfloor>rnd k * real (Suc i + 1)\<rfloor>
     in shuffleLoop rnd (Suc k) i (a[Suc i := a ! j, j := a ! Suc i]))"

text \<open>\<open>a.slice(0, e)\<close>: \<open>e\<close> is truncated to an integer, and a negative one counts from the end.\<close>

definition sliceTo :: "'a list \<Rightarrow> real \<Rightarrow> 'a list" where
  "sliceTo a e =
    (let k = (if e < 0 then \<lceil>e\<rceil> else \<lfloor>e\<rfloor>)
     in if k < 0 then take (nat (int (length a) + k)) a else take (nat k) a)"

definition randomPick :: "(nat \<Rightarrow> real) \<Rightarrow> 'a list \<Rightarrow> real \<Rightarrow> 'a list" where
  "randomPick rnd arr n =
    sliceTo (shuffleLoop rnd 0 (length arr - 1) arr) (min n (real (length arr)))"

section \<open>Concrete inputs of the assembly\<close>

definition rawq_tagged :: RawQuestion where
  "rawq_tagged = \<lparr> q_number = Some 1, question_type = Some Value, exam_html = None,
      text_html = js ''2+2?'', options_html = Some (js ''<li>4</li>''),
      explanation_html = None \<rparr>"

definition rawq_plain :: RawQuestion where
  "rawq_plain = rawq_tagged\<lparr> question_type := None \<rparr>"

definition record1 :: ChapterRecord where
  "record1 = \<lparr> rec_subject = js ''physics'', rec_topic = js ''kinematics'',
      rec_file = js ''kinematics.json'', rel_path = None, rec_title = None,
      rec_questions = [rawq_plain], answer_key = Some [js ''A''] \<rparr>"

definition toyListItems :: "jsstring \<Rightarrow> jsstring list" where
  "toyListItems h = (if h = js ''<li>4</li>'' then [js ''4''] else [])"

text \<open>A file of two lines, and a parser that reads the first as \<open>record1\<close> and rejects
  the second.\<close>

definition goodLine :: jsstring where
  \<open>goodLine = js ''{"subject":"physics","topic":"kinematics","file":"kinematics.json","questions":[{"number":1,"text_html":"2+2?","options_html":"<li>4</li>"}],"answer_key":["A"]}''\<close>

definition badLine :: jsstring where
  \<open>badLine = js ''{"file":''\<close>

definition toyParse :: "ChapterRecord jsonParser" where
  "toyParse l = (if l = goodLine then Inr record1 else Inl (js ''Unexpected end of JSON input''))"

definition toyFetch :: "jsstring \<Rightarrow> jsstring \<Rightarrow> fetched" where
  "toyFetch subjectName chapter =
     (if chapter = js ''kinematics'' then Inr (goodLine @ [0x0A]) else Inl 404)"

definition mixedFile :: jsstring where
  "mixedFile = goodLine @ [0x0D, 0x0A] @ badLine @ [0x0A]"

definition mixedFetch :: "jsstring \<Rightarrow> jsstring \<Rightarrow> fetched" where
  "mixedFetch subjectName chapter = Inr mixedFile"

definition toySubjects :: "jsstring \<rightharpoonup> jsstring" where
  "toySubjects = [js ''kinematics'' \<mapsto> js ''physics'']"

definition entry1 :: MockQuestion where
  "entry1 = poolEntry toyListItems (js ''physics'') (js ''kinematics'') record1 0 rawq_plain"

definition halves :: "nat \<Rightarrow> real" where
  "halves k = 1 / 2"

section \<open>Token codec (route.ts, mock-client.tsx)\<close>

type_synonym bytes = "8 word list"

definition b64alphabet :: jsstring where
  "b64alphabet = js ''ABCDEFGHIJKLMNOPQRSTUVWXYZabcdefghijklmnopqrstuvwxyz0123456789+/''"

definition b64char :: "nat \<Rightarrow> 16 word" where
  "b64char n = b64alphabet ! n"

text \<open>
  \<open>buf.toString("base64")\<close>: every three bytes give four 6-bit groups, a rest of one
  byte gives two and a rest of two bytes gives three; the text is padded with \<open>=\<close> to a
  multiple of four characters.
\<close>

fun sextets :: "bytes \<Rightarrow> nat list" where
  "sextets (a # b # c # rest) =
     [unat a div 4, unat a mod 4 * 16 + unat b div 16, unat b mod 16 * 4 + unat c div 64,
      unat c mod 64] @ sextets rest"
| "sextets [a, b] = [unat a div 4, unat a mod 4 * 16 + unat b div 16, unat b mod 16 * 4]"
| "sextets [a] = [unat a div 4, unat a mod 4 * 16]"
| "sextets [] = []"

definition toBase64 :: "bytes \<Rightarrow> jsstring" where
  "toBase64 buf = map b64char (sextets buf) @ replicate ((3 - length buf mod 3) mod 3) 0x3D"

text \<open>\<open>s.replace(/x/g, y)\<close> for single code units, and \<open>s.replace(/=+$/g, "")\<close>.\<close>

definition replaceAll :: "16 word \<Rightarrow> 16 word \<Rightarrow> jsstring \<Rightarrow> jsstring" where
  "replaceAll x y s = map (\<lambda>c. if c = x then y else c) s"

definition stripTrailingEquals :: "jsstring \<Rightarrow> jsstring" where
  "stripTrailingEquals s = rev (dropWhile (\<lambda>c. c = 0x3D) (rev s))"

definition base64urlFromBuffer :: "bytes \<Rightarrow> jsstring" where
  "base64urlFromBuffer buf =
     stripTrailingEquals (replaceAll 0x2F 0x5F (replaceAll 0x2B 0x2D (toBase64 buf)))"

text \<open>
  The platform functions of the assembly are parameters: \<open>jsonBytes\<close> is
  \<open>Buffer.from(JSON.stringify(payload), "utf8")\<close> and \<open>gzipSync\<close> the compressor.
\<close>

definition encodeToken :: "('p \<Rightarrow> bytes) \<Rightarrow> (bytes \<Rightarrow> bytes) \<Rightarrow> 'p \<Rightarrow> jsstring" where
  "encodeToken jsonBytes gzipSync payload = base64urlFromBuffer (gzipSync (jsonBytes payload))"

text \<open>
  \<open>atob\<close>, the forgiving base64 decoder of the platform: ASCII whitespace is removed;
  when the length is a multiple of four, one or two \<open>=\<close> at the end are removed; a
  length of 1 modulo 4 or a character outside the alphabet is an error (\<open>None\<close>); the
  bits left over at the end are dropped. The result is a string of code units below 256.
\<close>

definition isAsciiWhitespace :: "16 word \<Rightarrow> bool" where
  "isAsciiWhitespace c \<longleftrightarrow> c \<in> {0x09, 0x0A, 0x0C, 0x0D, 0x20}"

fun indexOf :: "16 word \<Rightarrow> jsstring \<Rightarrow> nat option" where
  "indexOf c [] = None"
| "indexOf c (x # xs) = (if c = x then Some 0 else map_option Suc (indexOf c xs))"

definition b64index :: "16 word \<Rightarrow> nat option" where
  "b64index c = indexOf c b64alphabet"

fun mapAll :: "('a \<Rightarrow> 'b option) \<Rightarrow> 'a list \<Rightarrow> 'b list option" where
  "mapAll f [] = Some []"
| "mapAll f (x # xs) =
     (case f x of None \<Rightarrow> None
      | Some y \<Rightarrow> (case mapAll f xs of None \<Rightarrow> None | Some ys \<Rightarrow> Some (y # ys)))"

fun decodeSextets :: "nat list \<Rightarrow> jsstring" where
  "decodeSextets (a # b # c # d # rest) =
     [of_nat ((a * 4 + b div 16) mod 256), of_nat ((b mod 16 * 16 + c div 4) mod 256),
      of_nat ((c mod 4 * 64 + d) mod 256)] @ decodeSextets rest"
| "decodeSextets [a, b, c] =
     [of_nat ((a * 4 + b div 16) mod 256), of_nat ((b mod 16 * 16 + c div 4) mod 256)]"
| "decodeSextets [a, b] = [of_nat ((a * 4 + b div 16) mod 256)]"
| "decodeSextets [a] = []"
| "decodeSextets [] = []"

definition stripEquals2 :: "jsstring \<Rightarrow> jsstring" where
  "stripEquals2 d =
    (case rev d of
       a # b # r \<Rightarrow> if a = 0x3D then (if b = 0x3D then rev r else rev (b # r)) else d
     | [a] \<Rightarrow> if a = 0x3D then [] else d
     | [] \<Rightarrow> d)"

definition atob :: "jsstring \<Rightarrow> jsstring option" where
  "atob s =
    (let d1 = filter (\<lambda>c. \<not> isAsciiWhitespace c) s;
         d2 = (if length d1 mod 4 = 0 then stripEquals2 d1 else d1)
     in if length d2 mod 4 = 1 then None
        else map_option decodeSextets (mapAll b64index d2))"

text \<open>\<open>None\<close> is the exception that \<open>atob\<close> throws. The loop stores every code unit of
  the decoded string into the byte array.\<close>

definition base64urlToUint8Array :: "jsstring \<Rightarrow> bytes option" where
  "base64urlToUint8Array b64url =
    (let b64 = replaceAll 0x5F 0x2F (replaceAll 0x2D 0x2B b64url)
               @ drop ((length b64url + 3) mod 4) (js ''==='')
     in map_option (map ucast) (atob b64))"

text \<open>
  \<open>gunzipToJson\<close>: \<open>gunzip\<close> is the decompression stream and \<open>jsonParse\<close> is
  \<open>JSON.parse\<close> of the decoded text; each is \<open>None\<close> where it throws.
\<close>

definition gunzipToJson :: "(bytes \<Rightarrow> bytes option) \<Rightarrow> (bytes \<Rightarrow> 'p option) \<Rightarrow> jsstring \<Rightarrow> 'p option" where
  "gunzipToJson gunzip jsonParse t =
    (case base64urlToUint8Array t of
       None \<Rightarrow> None
     | Some bs \<Rightarrow> (case gunzip bs of None \<Rightarrow> None | Some txt \<Rightarrow> jsonParse txt))"


text \<open>Stand-ins for the platform functions at a concrete input.\<close>

definition toyJsonBytes :: "MockPayload \<Rightarrow> bytes" where
  "toyJsonBytes p = (if p = mock0 then [0x7B, 0x7D] else [])"

definition toyJsonParse :: "bytes \<Rightarrow> MockPayload option" where
  "toyJsonParse bs = (if bs = [0x7B, 0x7D] then Some mock0 else None)"

definition toyGzip :: "bytes \<Rightarrow> bytes" where
  "toyGzip bs = [0x1F, 0x8B, 0x08] @ bs"

definition toyGunzip :: "bytes \<Rightarrow> bytes option" where
  "toyGunzip bs =
    (case bs of
       a # b # c # rest \<Rightarrow> if a = 0x1F \<and> b = 0x8B \<and> c = 0x08 then Some rest else None
     | _ \<Rightarrow> None)"

section \<open>Mock assembly: the request handler (route.ts, GET)\<close>

text \<open>
  The handler from the point where the index has been fetched and
  \<open>findSubjectsForChapters\<close> has mapped the requested chapters to subjects.
  \<open>Thrown\<close> is an exception that leaves the handler; \<open>Share\<close> is the success response,
  whose share link carries the token of the payload. \<open>isoString\<close> is
  \<open>Date.prototype.toISOString\<close> and \<open>now\<close> the time of the request in milliseconds.
\<close>

datatype AssemblyResponse =
  MissingSubject
  | NoChaptersMatched "jsstring list"
  | NoQuestionsFound "jsstring list"
  | Thrown jsstring
  | Share MockPayload

text \<open>The value of a number that is finite, as the clamped parameters are.\<close>

fun numVal :: "jsnum \<Rightarrow> real" where
  "numVal (Fin x) = x"
| "numVal NaN = 0"
| "numVal NegInf = 0"
| "numVal PosInf = 0"

definition GET_mock ::
  "ChapterRecord jsonParser \<Rightarrow> (jsstring \<Rightarrow> jsstring list) \<Rightarrow> (jsstring \<Rightarrow> jsstring \<Rightarrow> fetched)
     \<Rightarrow> (nat \<Rightarrow> real) \<Rightarrow> (real \<Rightarrow> jsstring) \<Rightarrow> real \<Rightarrow> (jsstring \<rightharpoonup> jsstring)
     \<Rightarrow> jsstring list \<Rightarrow> jsnum option \<Rightarrow> jsnum option \<Rightarrow> AssemblyResponse"
where
  "GET_mock jsonParse listItems fetchChapter rnd isoString now chapterToSubject requested
      maxParam durationParam =
    (if requested = [] then MissingSubject
     else
       let maxQ = numVal (maxQuestionsOf maxParam);
           duration = numVal (durationSecondsOf durationParam);
           resolvedChapters = filter (\<lambda>c. orEmpty (chapterToSubject c) \<noteq> []) requested
       in if resolvedChapters = [] then NoChaptersMatched requested
          else
            (case buildPool jsonParse listItems fetchChapter chapterToSubject resolvedChapters of
               Inl msg \<Rightarrow> Thrown msg
             | Inr pool \<Rightarrow>
                 if pool = [] then NoQuestionsFound resolvedChapters
                 else Share \<lparr> createdAt = isoString now,
                              expiresAt = isoString (now + duration * 1000),
                              durationSeconds = duration,
                              maxQuestions = maxQ,
                              chapters = resolvedChapters,
                              questions = randomPick rnd pool maxQ \<rparr>))"

definition toyIso :: "real \<Rightarrow> jsstring" where
  "toyIso t = (if t = 0 then js ''1970-01-01T00:00:00.000Z'' else js ''1970-01-01T00:20:00.000Z'')"



section \<open>Properties of the scoring engine\<close>

lemma dropWhile_idem: "dropWhile P (dropWhile P xs) = dropWhile P xs"
  by (induction xs) auto

lemma trim_generic_idem:
  "dropWhile P (rev (dropWhile P (rev (dropWhile P xs)))) = rev (dropWhile P (rev (dropWhile P xs)))"
proof -
  let ?d = "dropWhile P"
  let ?t = "?d (rev (?d xs))"
  show ?thesis
  proof (cases "?t = []")
    case True
    show ?thesis by (simp only: True rev.simps dropWhile.simps)
  next
    case False
    have ne: "?d xs \<noteq> []"
    proof
      assume "?d xs = []"
      then have "?t = []" by (simp only: rev.simps dropWhile.simps)
      with False show False by contradiction
    qed
    then have h: "\<not> P (hd (?d xs))" by (rule hd_dropWhile)
    have "rev (?d xs) = takeWhile P (rev (?d xs)) @ ?t"
      by (simp only: takeWhile_dropWhile_id)
    then have "rev (rev (?d xs)) = rev (takeWhile P (rev (?d xs)) @ ?t)"
      by (rule arg_cong)
    then have "?d xs = rev ?t @ rev (takeWhile P (rev (?d xs)))"
      by (simp only: rev_rev_ident rev_append)
    moreover from False have rne: "rev ?t \<noteq> []" by (simp only: rev_is_Nil_conv not_False_eq_True)
    ultimately have "hd (rev ?t) = hd (?d xs)" by (metis hd_append2)
    with h have "\<not> P (hd (rev ?t))" by metis
    with rne show ?thesis by (cases "rev ?t") (simp_all del: rev_is_Nil_conv)
  qed
qed

lemma trim_idem: "trim (trim s) = trim s"
  unfolding trim_def by (simp only: rev_rev_ident trim_generic_idem dropWhile_idem)

lemma scoreLoop_counts:
  "acc_attempted (scoreLoop up ans i qs acc) + acc_unattempted (scoreLoop up ans i qs acc)
     = acc_attempted acc + acc_unattempted acc + length qs
   \<and> acc_correct (scoreLoop up ans i qs acc) + acc_wrong (scoreLoop up ans i qs acc)
       - acc_attempted (scoreLoop up ans i qs acc)
     = acc_correct acc + acc_wrong acc - acc_attempted acc
   \<and> acc_attempted (scoreLoop up ans i qs acc) - (acc_correct (scoreLoop up ans i qs acc) + acc_wrong (scoreLoop up ans i qs acc))
     = acc_attempted acc - (acc_correct acc + acc_wrong acc)"
  by (induction qs arbitrary: i acc) (auto simp: scoreStep_def Let_def)

lemma scoreStep_breakdown_length:
  "length (acc_breakdown (scoreStep up ans i q acc)) = Suc (length (acc_breakdown acc))"
  by (simp add: scoreStep_def Let_def)

lemma scoreStep_row_index:
  "map row_index (acc_breakdown (scoreStep up ans i q acc)) = map row_index (acc_breakdown acc) @ [i]"
  by (simp add: scoreStep_def Let_def)

lemma scoreStep_row_id:
  "map row_id (acc_breakdown (scoreStep up ans i q acc)) = map row_id (acc_breakdown acc) @ [q_id q]"
  by (simp add: scoreStep_def Let_def)

lemma scoreLoop_row_index:
  "map row_index (acc_breakdown (scoreLoop up ans i qs acc))
     = map row_index (acc_breakdown acc) @ [i ..< i + length qs]"
proof (induction qs arbitrary: i acc)
  case Nil
  show ?case by simp
next
  case (Cons q qs)
  have "[i ..< i + length (q # qs)] = i # [Suc i ..< Suc i + length qs]"
    by (simp add: upt_rec)
  then show ?case by (simp add: Cons.IH scoreStep_row_index)
qed

lemma scoreLoop_row_id:
  "map row_id (acc_breakdown (scoreLoop up ans i qs acc))
     = map row_id (acc_breakdown acc) @ map q_id qs"
  by (induction qs arbitrary: i acc) (simp_all add: scoreStep_row_id)

lemma scoreLoop_start_counts:
  fixes up ans qs
  defines "a \<equiv> scoreLoop up ans 0 qs \<lparr> acc_attempted = 0, acc_correct = 0, acc_wrong = 0,
                   acc_unattempted = 0, acc_breakdown = [] \<rparr>"
  shows "acc_attempted a + acc_unattempted a = length qs" and "acc_correct a + acc_wrong a = acc_attempted a"
proof -
  let ?z = "\<lparr> acc_attempted = 0, acc_correct = 0, acc_wrong = 0,
                   acc_unattempted = 0, acc_breakdown = [] \<rparr>"
  from scoreLoop_counts [of up ans 0 qs ?z]
  show "acc_attempted a + acc_unattempted a = length qs" and "acc_correct a + acc_wrong a = acc_attempted a"
    by (simp_all add: a_def)
qed

text \<open>
  Claim C10. Every result of \<open>computeResult\<close> satisfies
  attempted + unattempted = totalQuestions and correct + wrong = attempted, and its
  breakdown has exactly totalQuestions rows, the row at position \<open>i\<close> carrying the
  index \<open>i\<close> and the id of the \<open>i\<close>-th question of the payload.
\<close>

theorem computeResult_partition:
  "attempted (computeResult up payload ans) + unattempted (computeResult up payload ans)
      = totalQuestions (computeResult up payload ans)
   \<and> correct (computeResult up payload ans) + wrong (computeResult up payload ans)
      = attempted (computeResult up payload ans)
   \<and> totalQuestions (computeResult up payload ans) = length (questions payload)
   \<and> length (breakdown (computeResult up payload ans)) = length (questions payload)
   \<and> map row_index (breakdown (computeResult up payload ans)) = [0 ..< length (questions payload)]
   \<and> map row_id (breakdown (computeResult up payload ans)) = map q_id (questions payload)"
proof -
  let ?z = "\<lparr> acc_attempted = 0, acc_correct = 0, acc_wrong = 0,
                   acc_unattempted = 0, acc_breakdown = [] \<rparr>"
  let ?a = "scoreLoop up ans 0 (questions payload) ?z"
  have ix: "map row_index (acc_breakdown ?a) = [0 ..< length (questions payload)]"
    using scoreLoop_row_index [of up ans 0 "questions payload" ?z] by simp
  have ids: "map row_id (acc_breakdown ?a) = map q_id (questions payload)"
    using scoreLoop_row_id [of up ans 0 "questions payload" ?z] by simp
  have len: "length (acc_breakdown ?a) = length (questions payload)"
    using arg_cong [OF ids, of length] by simp
  show ?thesis
    using scoreLoop_start_counts [of up ans "questions payload"] ix ids len
    by (simp add: computeResult_def Let_def)
qed

lemma pow2_powr: "pow2 k = 2 powr of_int k"
proof (cases "0 \<le> k")
  case True
  then have "2 powr real_of_int k = 2 powr real (nat k)" by simp
  also have "\<dots> = 2 ^ nat k" by (simp add: powr_realpow)
  finally show ?thesis using True by (simp add: pow2_def)
next
  case False
  then have "2 powr real_of_int k = 2 powr (- real (nat (- k)))" by simp
  also have "\<dots> = 1 / 2 powr real (nat (- k))" by (simp add: powr_minus_divide)
  also have "\<dots> = 1 / 2 ^ nat (- k)" by (simp add: powr_realpow)
  finally show ?thesis using False by (simp add: pow2_def)
qed

lemma pow2_pos: "0 < pow2 k"
  by (simp add: pow2_powr)

lemma binade_eqI:
  assumes "pow2 k \<le> \<bar>x\<bar>" and "\<bar>x\<bar> < pow2 (k + 1)"
  shows "binade x = k"
proof -
  have pos: "0 < \<bar>x\<bar>" using assms(1) pow2_pos [of k] by linarith
  have lo: "of_int k \<le> log 2 \<bar>x\<bar>"
    using assms(1) pos by (simp add: le_log_iff pow2_powr)
  have hi: "log 2 \<bar>x\<bar> < of_int k + 1"
  proof -
    have "\<bar>x\<bar> < 2 powr (of_int k + 1)" using assms(2) by (simp add: pow2_powr)
    then show ?thesis using pos by (simp add: log_less_iff)
  qed
  from lo hi show ?thesis unfolding binade_def by linarith
qed

lemma toDouble_eval:
  assumes "pow2 k \<le> \<bar>x\<bar>" and "\<bar>x\<bar> < pow2 (k + 1)"
  shows "toDouble x = of_int (roundTiesToEven (x / pow2 (k - 52))) * pow2 (k - 52)"
proof -
  from assms(1) pow2_pos [of k] have "x \<noteq> 0" by auto
  then show ?thesis
    by (simp add: toDouble_def Let_def binade_eqI [OF assms])
qed

lemma roundTiesToEven_nonpos:
  assumes "x \<le> 0"
  shows "roundTiesToEven x \<le> 0"
proof (cases "\<lfloor>x\<rfloor> \<le> - 1")
  case True
  then show ?thesis by (simp add: roundTiesToEven_def Let_def)
next
  case False
  moreover have "\<lfloor>x\<rfloor> \<le> 0" using assms by (simp add: floor_le_zero)
  ultimately have f: "\<lfloor>x\<rfloor> = 0" by linarith
  then have "0 \<le> x" by linarith
  with assms have "x = 0" by simp
  then show ?thesis by (simp add: roundTiesToEven_def)
qed

lemma toDouble_nonpos:
  assumes "x \<le> 0"
  shows "toDouble x \<le> 0"
proof (cases "x = 0")
  case True
  then show ?thesis by (simp add: toDouble_def)
next
  case False
  let ?u = "pow2 (binade x - 52)"
  have u: "0 < ?u" by (rule pow2_pos)
  with assms have "x / ?u \<le> 0" by (simp add: divide_le_0_iff)
  then have "roundTiesToEven (x / ?u) \<le> 0" by (rule roundTiesToEven_nonpos)
  then have "real_of_int (roundTiesToEven (x / ?u)) \<le> 0" by simp
  with u have "real_of_int (roundTiesToEven (x / ?u)) * ?u \<le> 0"
    by (simp add: mult_le_0_iff)
  with False show ?thesis by (simp add: toDouble_def Let_def)
qed

lemma mathRound_nonpos: "x \<le> 0 \<Longrightarrow> mathRound x \<le> 0"
proof -
  assume "x \<le> 0"
  then have "\<lfloor>x + 1 / 2\<rfloor> \<le> 0" by linarith
  then show ?thesis by (simp add: mathRound_def)
qed

lemma score_chain_nonpos:
  assumes "raw \<le> 0"
  shows "max 0 (jsDiv (mathRound (jsMul raw 10)) 10) = 0"
proof -
  have "raw * 10 \<le> 0" using assms by simp
  then have "jsMul raw 10 \<le> 0" unfolding jsMul_def by (rule toDouble_nonpos)
  then have "mathRound (jsMul raw 10) \<le> 0" by (rule mathRound_nonpos)
  then have "mathRound (jsMul raw 10) / 10 \<le> 0" by simp
  then have "jsDiv (mathRound (jsMul raw 10)) 10 \<le> 0" unfolding jsDiv_def by (rule toDouble_nonpos)
  then show ?thesis by simp
qed

text \<open>
  Claim C8. For an exam of N questions and any answer map, netMarks is
  4 * correct - wrong and lies between -N and 4N, and scorePercent is never negative:
  the last step of its computation is max(0, ...), so it is 0 when netMarks is negative.
\<close>

theorem computeResult_marks_bounds:
  "netMarks (computeResult up payload ans)
      = 4 * int (correct (computeResult up payload ans)) - int (wrong (computeResult up payload ans))
   \<and> - int (length (questions payload)) \<le> netMarks (computeResult up payload ans)
   \<and> netMarks (computeResult up payload ans) \<le> 4 * int (length (questions payload))
   \<and> 0 \<le> scorePercent (computeResult up payload ans)
   \<and> (netMarks (computeResult up payload ans) < 0
        \<longrightarrow> scorePercent (computeResult up payload ans) = 0)"
proof -
  let ?z = "\<lparr> acc_attempted = 0, acc_correct = 0, acc_wrong = 0,
                   acc_unattempted = 0, acc_breakdown = [] \<rparr>"
  let ?a = "scoreLoop up ans 0 (questions payload) ?z"
  let ?r = "computeResult up payload ans"
  let ?raw = "if maxMarks ?r > 0
              then jsMul (jsDiv (real_of_int (netMarks ?r)) (real_of_int (maxMarks ?r))) 100 else 0"
  have c: "acc_attempted ?a + acc_unattempted ?a = length (questions payload)"
    and d: "acc_correct ?a + acc_wrong ?a = acc_attempted ?a"
    using scoreLoop_start_counts [of up ans "questions payload"] by simp_all
  have net: "netMarks ?r = 4 * int (acc_correct ?a) - int (acc_wrong ?a)"
    by (simp add: computeResult_def Let_def MARKS_CORRECT_def MARKS_WRONG_def)
  have cw: "correct ?r = acc_correct ?a" "wrong ?r = acc_wrong ?a"
    by (simp_all add: computeResult_def Let_def)
  have lo: "- int (length (questions payload)) \<le> netMarks ?r"
    using c d net by linarith
  have hi: "netMarks ?r \<le> 4 * int (length (questions payload))"
    using c d net by linarith
  have sp: "scorePercent ?r = max 0 (jsDiv (mathRound (jsMul ?raw 10)) 10)"
    by (simp add: computeResult_def Let_def)
  have nn: "0 \<le> scorePercent ?r"
    by (simp only: sp max.cobounded1)
  have neg: "scorePercent ?r = 0" if n: "netMarks ?r < 0"
  proof -
    have "?raw \<le> 0"
    proof (cases "maxMarks ?r > 0")
      case True
      then have "real_of_int (netMarks ?r) / real_of_int (maxMarks ?r) \<le> 0"
        using n by (simp add: divide_le_0_iff)
      then have "jsDiv (real_of_int (netMarks ?r)) (real_of_int (maxMarks ?r)) \<le> 0"
        unfolding jsDiv_def by (rule toDouble_nonpos)
      then have "jsDiv (real_of_int (netMarks ?r)) (real_of_int (maxMarks ?r)) * 100 \<le> 0"
        by simp
      then have "jsMul (jsDiv (real_of_int (netMarks ?r)) (real_of_int (maxMarks ?r))) 100 \<le> 0"
        unfolding jsMul_def by (rule toDouble_nonpos)
      with True show ?thesis by simp
    next
      case False
      then show ?thesis by simp
    qed
    then have "max 0 (jsDiv (mathRound (jsMul ?raw 10)) 10) = 0" by (rule score_chain_nonpos)
    with sp show ?thesis by simp
  qed
  have first: "netMarks ?r = 4 * int (correct ?r) - int (wrong ?r)"
    by (simp only: net cw)
  show ?thesis
  proof (intro conjI impI)
    show "netMarks ?r = 4 * int (correct ?r) - int (wrong ?r)" by (rule first)
    show "- int (length (questions payload)) \<le> netMarks ?r" by (rule lo)
    show "netMarks ?r \<le> 4 * int (length (questions payload))" by (rule hi)
    show "0 \<le> scorePercent ?r" by (rule nn)
    show "scorePercent ?r = 0" if "netMarks ?r < 0" using that by (rule neg)
  qed
qed

lemma scoreStep_verdict:
  assumes up: "\<forall>s. s \<noteq> [] \<longrightarrow> up s \<noteq> up []"
  shows "map (\<lambda>r. (verdict r, marks r)) (acc_breakdown (scoreStep up ans i q acc))
           = map (\<lambda>r. (verdict r, marks r)) (acc_breakdown acc) @ [specScore up ans q]"
proof -
  let ?a = "case ans (q_id q) of None \<Rightarrow> [] | Some a \<Rightarrow> a"
  let ?c = "case correctAnswer q of None \<Rightarrow> [] | Some c \<Rightarrow> c"
  have e: "trim ?a \<noteq> [] \<Longrightarrow> trim ?c = [] \<Longrightarrow> up (trim ?a) \<noteq> up (trim ?c)"
    using up by simp
  show ?thesis
    using e
    by (auto simp add: scoreStep_def specScore_def Let_def norm_def trim_idem
        MARKS_CORRECT_def MARKS_WRONG_def)
qed

lemma scoreLoop_verdict:
  assumes up: "\<forall>s. s \<noteq> [] \<longrightarrow> up s \<noteq> up []"
  shows "map (\<lambda>r. (verdict r, marks r)) (acc_breakdown (scoreLoop up ans i qs acc))
           = map (\<lambda>r. (verdict r, marks r)) (acc_breakdown acc) @ map (specScore up ans) qs"
  by (induction qs arbitrary: i acc) (simp_all add: scoreStep_verdict [OF up])

text \<open>
  Claim C4. For every exam and answer map, the verdict and marks of each row are those
  of the rule \<open>specScore\<close>: unattempted and 0 for an empty trimmed answer, correct and
  +4 when the trimmed, case-folded answer equals the trimmed, case-folded correct
  answer, wrong and -1 otherwise, also when the correct answer is undefined or empty.
  The case mapping of the platform never maps a non-empty string to the image of the
  empty one; this is the only fact about it that is used.
\<close>

theorem computeResult_verdicts:
  assumes "\<forall>s. s \<noteq> [] \<longrightarrow> toUpperCase s \<noteq> toUpperCase []"
  shows "map (\<lambda>r. (verdict r, marks r)) (breakdown (computeResult toUpperCase payload ans))
           = map (specScore toUpperCase ans) (questions payload)"
  using scoreLoop_verdict [OF assms, of ans 0 "questions payload"]
  by (simp add: computeResult_def Let_def)

lemma toUpperCaseAscii_nonempty: "\<forall>s. s \<noteq> [] \<longrightarrow> toUpperCaseAscii s \<noteq> toUpperCaseAscii []"
  by (simp add: toUpperCaseAscii_def)

theorem computeResult_verdicts_witness:
  "map (\<lambda>r. (verdict r, marks r)) (breakdown (computeResult toUpperCaseAscii mock0 answers0))
      = [(Correct, 4), (Wrong, - 1)]"
proof -
  have sp: "map (specScore toUpperCaseAscii answers0) (questions mock0) = [(Correct, 4), (Wrong, - 1)]"
    by (simp add: specScore_def mock0_def question0_def answers0_def js_def trim_def
        isWhiteSpace_def toUpperCaseAscii_def)
  show ?thesis
    using computeResult_verdicts [OF toUpperCaseAscii_nonempty, of mock0 answers0] sp
    by simp
qed

section \<open>Properties of the session timer\<close>


lemma timerFire_submitted: "submitted s \<Longrightarrow> timerFire start now s = (s, [])"
  by (simp add: timerFire_def)

lemma runTimer_submitted: "submitted s \<Longrightarrow> runTimer start nows s = (s, [])"
  by (induction nows) (simp_all add: timerFire_submitted)

lemma runTimer_no_token: "token s = [] \<Longrightarrow> runTimer start nows s = (s, [])"
  by (induction nows) (simp_all add: timerFire_def)

lemma timerFire_cases:
  assumes "token s \<noteq> []" "\<not> submitted s"
  shows "TIME_LIMIT_SECONDS * 1000 - (now - start) \<le> 0 \<Longrightarrow>
           submitted (fst (timerFire start now s)) \<and> token (fst (timerFire start now s)) = token s
           \<and> count_list (snd (timerFire start now s)) (SetSubmitted True) = 1"
    and "\<not> TIME_LIMIT_SECONDS * 1000 - (now - start) \<le> 0 \<Longrightarrow>
           \<not> submitted (fst (timerFire start now s)) \<and> token (fst (timerFire start now s)) = token s
           \<and> count_list (snd (timerFire start now s)) (SetSubmitted True) = 0"
  using assms by (simp_all add: timerFire_def tick_def Let_def)

lemma runTimer_Cons:
  "runTimer start (now # nows) s =
     (fst (runTimer start nows (fst (timerFire start now s))),
      snd (timerFire start now s) @ snd (runTimer start nows (fst (timerFire start now s))))"
  by (simp add: split_def Let_def)

lemma runTimer_count_le:
  "count_list (snd (runTimer start nows s)) (SetSubmitted True) \<le> 1"
proof (induction nows arbitrary: s)
  case Nil
  show ?case by simp
next
  case (Cons now nows)
  show ?case
  proof (cases "token s = [] \<or> submitted s")
    case True
    then show ?thesis
      using runTimer_submitted [of s start "now # nows"] runTimer_no_token [of s start "now # nows"]
      by auto
  next
    case False
    then have g: "token s \<noteq> []" "\<not> submitted s" by simp_all
    show ?thesis
    proof (cases "TIME_LIMIT_SECONDS * 1000 - (now - start) \<le> 0")
      case True
      from timerFire_cases(1) [OF g True]
      have a: "submitted (fst (timerFire start now s))"
        and c: "count_list (snd (timerFire start now s)) (SetSubmitted True) = 1" by simp_all
      from runTimer_submitted [OF a, of start nows] c
      show ?thesis by (simp add: runTimer_Cons del: runTimer.simps)
    next
      case False
      from timerFire_cases(2) [OF g False]
      have c: "count_list (snd (timerFire start now s)) (SetSubmitted True) = 0" by simp
      with Cons.IH [of "fst (timerFire start now s)"]
      show ?thesis by (simp add: runTimer_Cons del: runTimer.simps)
    qed
  qed
qed

lemma runTimer_count_expired:
  assumes "token s \<noteq> []" "\<not> submitted s"
    and "\<exists>now \<in> set nows. TIME_LIMIT_SECONDS * 1000 - (now - start) \<le> 0"
  shows "count_list (snd (runTimer start nows s)) (SetSubmitted True) = 1"
  using assms
proof (induction nows arbitrary: s)
  case Nil
  then show ?case by simp
next
  case (Cons now nows)
  note g = Cons.prems(1,2)
  show ?case
  proof (cases "TIME_LIMIT_SECONDS * 1000 - (now - start) \<le> 0")
    case True
    from timerFire_cases(1) [OF g True]
    have a: "submitted (fst (timerFire start now s))"
      and c: "count_list (snd (timerFire start now s)) (SetSubmitted True) = 1" by simp_all
    from runTimer_submitted [OF a, of start nows] c
    show ?thesis by (simp add: runTimer_Cons del: runTimer.simps)
  next
    case False
    from timerFire_cases(2) [OF g False]
    have n: "\<not> submitted (fst (timerFire start now s))"
      and t: "token (fst (timerFire start now s)) \<noteq> []"
      and c: "count_list (snd (timerFire start now s)) (SetSubmitted True) = 0"
      using g by simp_all
    from Cons.prems(3) False
    have "\<exists>now \<in> set nows. TIME_LIMIT_SECONDS * 1000 - (now - start) \<le> 0" by auto
    from Cons.IH [OF t n this] c show ?thesis by (simp add: runTimer_Cons del: runTimer.simps)
  qed
qed

lemma runTimer_submitted_after:
  "SetSubmitted True \<in> set (snd (runTimer start nows s)) \<Longrightarrow> submitted (fst (runTimer start nows s))"
proof (induction nows arbitrary: s)
  case Nil
  then show ?case by simp
next
  case (Cons now nows)
  show ?case
  proof (cases "token s = [] \<or> submitted s")
    case True
    then have "runTimer start (now # nows) s = (s, [])"
      using runTimer_submitted runTimer_no_token by blast
    with Cons.prems show ?thesis by simp
  next
    case False
    then have g: "token s \<noteq> []" "\<not> submitted s" by simp_all
    show ?thesis
    proof (cases "TIME_LIMIT_SECONDS * 1000 - (now - start) \<le> 0")
      case True
      from timerFire_cases(1) [OF g True]
      have a: "submitted (fst (timerFire start now s))" by simp
      from runTimer_submitted [OF a, of start nows]
      show ?thesis using a by (simp add: runTimer_Cons del: runTimer.simps)
    next
      case False
      from timerFire_cases(2) [OF g False]
      have c: "count_list (snd (timerFire start now s)) (SetSubmitted True) = 0" by simp
      then have "SetSubmitted True \<notin> set (snd (timerFire start now s))"
        by (simp add: count_list_0_iff)
      with Cons.prems have "SetSubmitted True \<in> set (snd (runTimer start nows (fst (timerFire start now s))))"
        by (simp add: runTimer_Cons del: runTimer.simps)
      from Cons.IH [OF this] show ?thesis by (simp add: runTimer_Cons del: runTimer.simps)
    qed
  qed
qed

text \<open>
  Claim C9. In every run of the session timer the automatic submission is invoked at
  most once, and exactly once when a firing finds the remaining time at or below zero
  in an active session; once it has been invoked, later firings call nothing and leave
  the session as it is.
\<close>

theorem auto_submit_once:
  "count_list (snd (runTimer start nows s)) (SetSubmitted True) \<le> 1
   \<and> (token s \<noteq> [] \<and> \<not> submitted s
        \<and> (\<exists>now \<in> set nows. TIME_LIMIT_SECONDS * 1000 - (now - start) \<le> 0)
      \<longrightarrow> count_list (snd (runTimer start nows s)) (SetSubmitted True) = 1)
   \<and> (SetSubmitted True \<in> set (snd (runTimer start nows s))
      \<longrightarrow> runTimer start later (fst (runTimer start nows s)) = (fst (runTimer start nows s), []))"
  using runTimer_count_le runTimer_count_expired runTimer_submitted_after runTimer_submitted
  by blast

theorem auto_submit_once_witness:
  "count_list (snd (runTimer 0 [1199750, 1200000, 1200250, 1200500] session60)) (SetSubmitted True) = 1
   \<and> runTimer 0 [1200750, 1201000]
        (fst (runTimer 0 [1199750, 1200000, 1200250, 1200500] session60))
      = (fst (runTimer 0 [1199750, 1200000, 1200250, 1200500] session60), [])"
proof -
  have g: "token session60 \<noteq> []" "\<not> submitted session60"
    by (simp_all add: session60_def initialSession_def js_def)
  have e: "\<exists>now \<in> set [1199750, 1200000, 1200250, 1200500 :: real]. TIME_LIMIT_SECONDS * 1000 - (now - 0) \<le> 0"
    by (simp add: TIME_LIMIT_SECONDS_def)
  have one: "count_list (snd (runTimer 0 [1199750, 1200000, 1200250, 1200500] session60)) (SetSubmitted True) = 1"
    using auto_submit_once [of 0 "[1199750, 1200000, 1200250, 1200500]" session60] g e by blast
  then have "SetSubmitted True \<in> set (snd (runTimer 0 [1199750, 1200000, 1200250, 1200500] session60))"
    by (metis count_list_0_iff zero_neq_one)
  with auto_submit_once [of 0 "[1199750, 1200000, 1200250, 1200500]" session60 "[1200750, 1201000]"] one
  show ?thesis by blast
qed

text \<open>
  Claim C2 at a failing input: for a payload of 60 seconds, a tick one second after the
  session start leaves 1199000 ms, not 60 * 1000 - 1000.
\<close>

theorem tick_ignores_duration:
  "remainingMs (fst (timerFire 0 1000 session60))
     \<noteq> durationSeconds mock60 * 1000 - (1000 - 0)"
  by (simp add: timerFire_def tick_def session60_def initialSession_def js_def mock60_def
      TIME_LIMIT_SECONDS_def)

text \<open>
  Claim C2 on the code. The assembly clamps the requested duration and encodes it in
  the payload, but the tick never reads it: on every tick of an active session the
  remaining time is \<open>TIME_LIMIT_SECONDS\<close> * 1000 (20 minutes) minus the time elapsed
  since the persisted session start, whatever the payload. That is the payload's
  duration minus the elapsed time, as the claim has it, exactly for the payloads whose
  durationSeconds is 1200.
\<close>

theorem tick_remaining_fixed_limit:
  assumes "token s \<noteq> []" and "\<not> submitted s"
  shows "remainingMs (fst (timerFire start now s)) = 1200 * 1000 - (now - start)
         \<and> (remainingMs (fst (timerFire start now s)) = durationSeconds p * 1000 - (now - start)
              \<longleftrightarrow> durationSeconds p = 1200)"
  using assms by (auto simp add: timerFire_def tick_def TIME_LIMIT_SECONDS_def Let_def)

theorem tick_remaining_fixed_limit_witness:
  "durationSecondsOf (Some (Fin 60)) = Fin 60
   \<and> mock session60 = Some mock60
   \<and> durationSeconds mock60 = 60
   \<and> remainingMs (fst (timerFire 0 1000 session60)) = 1199000"
proof -
  have d: "durationSecondsOf (Some (Fin 60)) = Fin 60"
    by (simp add: durationSecondsOf_def numberParam_def orElse_def)
  have m: "mock session60 = Some mock60" "durationSeconds mock60 = 60"
    by (simp_all add: session60_def mock60_def)
  have "remainingMs (fst (timerFire 0 1000 session60)) = 1199000"
    using tick_remaining_fixed_limit [of session60 0 1000 mock60]
    by (simp add: session60_def initialSession_def js_def)
  with d m show ?thesis by simp
qed

section \<open>Properties of the request parameters\<close>

lemma clamp_code:
  assumes "lo \<le> hi" "lo \<le> d" "d \<le> hi"
  shows "mathMin (Fin hi) (mathMax (Fin lo) (orElse (numberParam v d) (Fin d)))
     = (case v of None \<Rightarrow> Fin d
        | Some x \<Rightarrow> if x = NaN \<or> x = Fin 0 then Fin d else clampTo lo hi x)"
proof (cases v)
  case None
  with assms show ?thesis by (simp add: numberParam_def orElse_def)
next
  case (Some x)
  with assms show ?thesis
    by (cases x) (auto simp add: numberParam_def orElse_def min_def max_def)
qed

text \<open>
  Claim C7, as stated, fails: a request with \<open>max=0\<close> gets 10 questions, not the
  clamped value 1, and a request with \<open>duration=0\<close> gets 1200 seconds, not 60.
\<close>

theorem zero_param_not_clamped:
  "maxQuestionsOf (Some (Fin 0)) = Fin 10
   \<and> maxQuestionsOf (Some (Fin 0)) \<noteq> specParam 1 10 10 (Some (Fin 0))
   \<and> durationSecondsOf (Some (Fin 0)) = Fin 1200
   \<and> durationSecondsOf (Some (Fin 0)) \<noteq> specParam 60 3600 1200 (Some (Fin 0))"
  by (simp add: maxQuestionsOf_def durationSecondsOf_def specParam_def numberParam_def orElse_def)

text \<open>
  Claim C7, amended. The effective max-question count is 10 when the parameter is
  absent, not a number or zero, and otherwise the requested value clamped to [1, 10];
  the effective duration is 1200 when the parameter is absent, not a number or zero,
  and otherwise the requested value clamped to [60, 3600].
\<close>

theorem params_clamped_or_default:
  "maxQuestionsOf v =
     (if v = None \<or> v = Some NaN \<or> v = Some (Fin 0) then Fin 10 else specParam 1 10 10 v)
   \<and> durationSecondsOf v =
     (if v = None \<or> v = Some NaN \<or> v = Some (Fin 0) then Fin 1200 else specParam 60 3600 1200 v)"
proof -
  have a: "maxQuestionsOf v = (case v of None \<Rightarrow> Fin 10
        | Some x \<Rightarrow> if x = NaN \<or> x = Fin 0 then Fin 10 else clampTo 1 10 x)"
    unfolding maxQuestionsOf_def by (rule clamp_code) simp_all
  have b: "durationSecondsOf v = (case v of None \<Rightarrow> Fin 1200
        | Some x \<Rightarrow> if x = NaN \<or> x = Fin 0 then Fin 1200 else clampTo 60 3600 x)"
  proof -
    have h: "(60::real) * 60 = 3600" by simp
    show ?thesis unfolding durationSecondsOf_def h by (rule clamp_code) simp_all
  qed
  show ?thesis
    by (simp add: a b specParam_def split: option.split)
qed

theorem params_clamped_or_default_witness:
  "maxQuestionsOf (Some (Fin 15)) = Fin 10 \<and> durationSecondsOf (Some (Fin 10)) = Fin 60
   \<and> maxQuestionsOf None = Fin 10 \<and> durationSecondsOf None = Fin 1200"
  using params_clamped_or_default [of "Some (Fin 15)"] params_clamped_or_default [of "Some (Fin 10)"]
    params_clamped_or_default [of None]
  by (simp add: specParam_def)

section \<open>Properties of the normaliser\<close>

text \<open>
  Claim C3, as stated, fails: a raw question that carries \<open>question_type = value\<close>
  keeps that type although its options markup is non-empty after trimming.
\<close>

theorem tagged_type_wins:
  "q_type (poolEntry toyListItems (js ''physics'') (js ''kinematics'') record1 0 rawq_tagged) = Value
   \<and> trim (orEmpty (options_html rawq_tagged)) \<noteq> []"
  by (simp add: poolEntry_def inferType_def rawq_tagged_def orEmpty_def trim_def
      isWhiteSpace_def js_def)

text \<open>
  Claim C3, amended. For every raw question normalised during assembly, the type of
  the result is the question's own \<open>question_type\<close> when it has one; when it has none,
  the type is mcq exactly when the options markup is non-empty after trimming, and
  value otherwise.
\<close>

theorem type_inferred_when_untagged:
  "(question_type q = None \<longrightarrow>
      (q_type (poolEntry listItems subjectName chapter record i q) = Mcq
         \<longleftrightarrow> trim (orEmpty (options_html q)) \<noteq> [])
      \<and> (q_type (poolEntry listItems subjectName chapter record i q) = Value
         \<longleftrightarrow> trim (orEmpty (options_html q)) = []))
   \<and> (\<forall>t. question_type q = Some t \<longrightarrow>
         q_type (poolEntry listItems subjectName chapter record i q) = t)"
  by (simp add: poolEntry_def inferType_def Let_def)

theorem type_inferred_when_untagged_witness:
  "q_type (poolEntry toyListItems (js ''physics'') (js ''kinematics'') record1 0 rawq_plain) = Mcq"
proof -
  have a: "question_type rawq_plain = None"
    by (simp add: rawq_plain_def)
  have b: "trim (orEmpty (options_html rawq_plain)) \<noteq> []"
    by (simp add: rawq_plain_def rawq_tagged_def orEmpty_def trim_def isWhiteSpace_def js_def)
  from type_inferred_when_untagged
    [of rawq_plain toyListItems "js ''physics''" "js ''kinematics''" record1 0] a b
  show ?thesis by blast
qed


section \<open>Properties of the record file parsers\<close>

lemma parseLinesMock_bad:
  "l \<in> set ls \<Longrightarrow> jsonParse l = Inl msg \<Longrightarrow> \<exists>m. parseLinesMock jsonParse ls = Inl m"
  by (induction ls) (auto split: sum.splits)

lemma parseLinesMock_all_good:
  "(\<And>l. l \<in> set ls \<Longrightarrow> \<exists>v. jsonParse l = Inr v) \<Longrightarrow> \<exists>vs. parseLinesMock jsonParse ls = Inr vs"
proof (induction ls)
  case Nil
  show ?case by simp
next
  case (Cons l ls)
  from Cons.prems [of l] obtain v where v: "jsonParse l = Inr v" by auto
  from Cons.IH Cons.prems obtain vs where "parseLinesMock jsonParse ls = Inr vs" by auto
  with v show ?case by simp
qed

lemma parseLinesTopic_data:
  "fst (parseLinesTopic jsonParse i ls)
     = concat (map (\<lambda>l. case jsonParse l of Inr v \<Rightarrow> [v] | Inl m \<Rightarrow> []) ls)"
  by (induction ls arbitrary: i) (auto simp add: split_def Let_def split: sum.splits)

lemma parseLinesTopic_errors_length:
  "length (snd (parseLinesTopic jsonParse i ls)) + length (fst (parseLinesTopic jsonParse i ls))
     = length ls"
  by (induction ls arbitrary: i) (auto simp add: split_def Let_def split: sum.splits)

lemma parseLinesTopic_good:
  "l \<in> set ls \<Longrightarrow> jsonParse l = Inr v \<Longrightarrow> v \<in> set (fst (parseLinesTopic jsonParse i ls))"
  by (induction ls arbitrary: i) (auto simp add: split_def Let_def split: sum.splits)

lemma GET_topic_survives:
  assumes "l \<in> set (nonBlankLines t)" "jsonParse l = Inr v"
  shows "fst (GET_topic jsonParse (Inr t)) = 200"
proof -
  have "v \<in> set (fst (parseLinesTopic jsonParse 0 (nonBlankLines t)))"
    using assms by (rule parseLinesTopic_good)
  then have "fst (parseLinesTopic jsonParse 0 (nonBlankLines t)) \<noteq> []" by auto
  then show ?thesis
    by (simp add: GET_topic_def parseJsonl_topic_def Let_def split_def)
qed

lemma buildPool_throws:
  assumes "c \<in> set cs"
    and "chapterEntries jsonParse listItems fetchChapter (orEmpty (chapterToSubject c)) c = Inl msg"
  shows "\<exists>m. buildPool jsonParse listItems fetchChapter chapterToSubject cs = Inl m"
  using assms by (induction cs) (auto split: sum.splits)

lemma assembly_parse_throws:
  assumes "bad \<in> set (nonBlankLines t)" and "jsonParse bad = Inl msg"
    and "good \<in> set (nonBlankLines t)" and "jsonParse good = Inr v"
    and "c \<in> set cs" and "fetchChapter (orEmpty (chapterToSubject c)) c = Inr t"
  shows "(\<exists>m. parseJsonl_mock jsonParse t = Inl m)
         \<and> (\<exists>m. buildPool jsonParse listItems fetchChapter chapterToSubject cs = Inl m)
         \<and> fst (GET_topic jsonParse (Inr t)) = 200"
proof -
  from assms(1,2) obtain m where m: "parseJsonl_mock jsonParse t = Inl m"
    unfolding parseJsonl_mock_def by (blast dest: parseLinesMock_bad)
  with assms(6)
  have "chapterEntries jsonParse listItems fetchChapter (orEmpty (chapterToSubject c)) c = Inl m"
    by (simp add: chapterEntries_def)
  with assms(5) have "\<exists>m. buildPool jsonParse listItems fetchChapter chapterToSubject cs = Inl m"
    by (rule buildPool_throws)
  moreover have "fst (GET_topic jsonParse (Inr t)) = 200"
    using assms(3,4) by (rule GET_topic_survives)
  ultimately show ?thesis using m by blast
qed


lemma goodLine_neq_badLine: "badLine \<noteq> goodLine"
  by (simp add: badLine_def goodLine_def js_def)

lemma nonBlankLines_mixedFile: "nonBlankLines mixedFile = [goodLine, badLine]"
  by (simp add: nonBlankLines_def mixedFile_def goodLine_def badLine_def js_def trim_def
      isWhiteSpace_def)

section \<open>Properties of the sampler\<close>

lemma random_index_bound:
  assumes "0 \<le> r" "r < 1"
  shows "nat \<lfloor>r * real (Suc i + 1)\<rfloor> \<le> Suc i"
proof -
  have "r * real (Suc i + 1) < 1 * real (Suc i + 1)"
    using assms(2) by (intro mult_strict_right_mono) simp_all
  then have "r * real (Suc i + 1) < real_of_int (int (Suc i) + 1)" by simp
  then have "\<lfloor>r * real (Suc i + 1)\<rfloor> < int (Suc i) + 1" by (simp only: floor_less_iff)
  then show ?thesis by linarith
qed

lemma shuffleLoop_mset:
  assumes "\<forall>k. 0 \<le> rnd k \<and> rnd k < 1"
  shows "i < length a \<or> i = 0 \<Longrightarrow> mset (shuffleLoop rnd k i a) = mset a"
proof (induction i arbitrary: k a)
  case 0
  show ?case by simp
next
  case (Suc i)
  let ?j = "nat \<lfloor>rnd k * real (Suc i + 1)\<rfloor>"
  let ?a = "a[Suc i := a ! ?j, ?j := a ! Suc i]"
  from Suc.prems have i: "Suc i < length a" by simp
  have "?j \<le> Suc i" using assms by (intro random_index_bound) simp_all
  with i have j: "?j < length a" by simp
  have sw: "mset ?a = mset a" using j i by (rule mset_swap)
  have "i < length ?a" using i by simp
  then have "mset (shuffleLoop rnd (Suc k) i ?a) = mset ?a" by (intro Suc.IH) simp
  with sw show ?case by (simp add: Let_def)
qed

lemma shuffle_mset:
  assumes "\<forall>k. 0 \<le> rnd k \<and> rnd k < 1"
  shows "mset (shuffleLoop rnd 0 (length arr - 1) arr) = mset arr"
proof (cases arr)
  case Nil
  then show ?thesis by simp
next
  case (Cons x xs)
  then have "length arr - 1 < length arr" by simp
  then have "length arr - 1 < length arr \<or> length arr - 1 = 0" by (rule disjI1)
  with assms show ?thesis by (rule shuffleLoop_mset)
qed

lemma shuffle_length:
  assumes "\<forall>k. 0 \<le> rnd k \<and> rnd k < 1"
  shows "length (shuffleLoop rnd 0 (length arr - 1) arr) = length arr"
proof -
  have "size (mset (shuffleLoop rnd 0 (length arr - 1) arr)) = size (mset arr)"
    using shuffle_mset [OF assms, of arr] by simp
  then show ?thesis by simp
qed

lemma sliceTo_all: "sliceTo a (real (length a)) = a"
  by (simp add: sliceTo_def)

lemma sliceTo_length:
  assumes "0 \<le> e"
  shows "real (length (sliceTo a e)) \<le> e"
proof -
  have "real (nat \<lfloor>e\<rfloor>) \<le> e" using assms by simp
  moreover have "length (sliceTo a e) \<le> nat \<lfloor>e\<rfloor>"
    using assms by (simp add: sliceTo_def)
  ultimately show ?thesis by linarith
qed

lemma sliceTo_mset: "mset (sliceTo a e) \<subseteq># mset a"
proof -
  have "mset (take n a) \<subseteq># mset a" for n
  proof -
    have "mset a = mset (take n a) + mset (drop n a)"
      by (simp only: mset_append [symmetric] append_take_drop_id)
    then show ?thesis by simp
  qed
  then show ?thesis by (simp add: sliceTo_def Let_def)
qed

lemma randomPick_length:
  assumes "\<forall>k. 0 \<le> rnd k \<and> rnd k < 1" and "0 \<le> n"
  shows "real (length (randomPick rnd arr n)) \<le> min n (real (length arr))"
  unfolding randomPick_def using assms(2) by (intro sliceTo_length) simp

lemma randomPick_mset:
  assumes "\<forall>k. 0 \<le> rnd k \<and> rnd k < 1"
  shows "mset (randomPick rnd arr n) \<subseteq># mset arr"
  unfolding randomPick_def
  using sliceTo_mset [of "shuffleLoop rnd 0 (length arr - 1) arr"] shuffle_mset [OF assms, of arr]
  by simp

lemma distinct_submset:
  assumes "mset ys \<subseteq># mset xs" and "distinct xs"
  shows "distinct ys"
proof -
  have "count (mset ys) a = (if a \<in> set ys then 1 else 0)" for a
  proof (cases "a \<in> set ys")
    case True
    then have pos: "count (mset ys) a \<noteq> 0" by (simp add: count_eq_zero_iff)
    have le: "count (mset ys) a \<le> count (mset xs) a"
      using assms(1) by (rule mset_subset_eq_count)
    have "count (mset xs) a \<le> 1"
      using assms(2) by (simp add: distinct_count_atmost_1)
    with pos le have "count (mset ys) a = 1" by linarith
    with True show ?thesis by (simp only: if_True)
  next
    case False
    then show ?thesis by (simp add: count_eq_zero_iff)
  qed
  then show ?thesis by (simp only: distinct_count_atmost_1) simp
qed

lemma randomPick_distinct_ids:
  assumes "\<forall>k. 0 \<le> rnd k \<and> rnd k < 1" and "distinct (map q_id pool)"
  shows "distinct (map q_id (randomPick rnd pool n))"
proof -
  have "image_mset q_id (mset (randomPick rnd pool n)) \<subseteq># image_mset q_id (mset pool)"
    using randomPick_mset [OF assms(1), of pool n] by (rule image_mset_subseteq_mono)
  then have "mset (map q_id (randomPick rnd pool n)) \<subseteq># mset (map q_id pool)"
    by simp
  then show ?thesis using assms(2) by (rule distinct_submset)
qed

lemma randomPick_all:
  assumes "\<forall>k. 0 \<le> rnd k \<and> rnd k < 1" and "real (length pool) \<le> n"
  shows "mset (randomPick rnd pool n) = mset pool"
proof -
  have "min n (real (length pool)) = real (length (shuffleLoop rnd 0 (length pool - 1) pool))"
    using assms(2) shuffle_length [OF assms(1), of pool] by simp
  then show ?thesis
    unfolding randomPick_def using shuffle_mset [OF assms(1), of pool]
    by (simp only: sliceTo_all)
qed

lemma buildPool_twice:
  assumes "buildPool jsonParse listItems fetchChapter chapterToSubject [c, c] = Inr pool"
  shows "\<exists>qs. pool = qs @ qs"
  using assms by (auto split: sum.splits)

lemma sampler_repeats_ids:
  assumes "\<forall>k. 0 \<le> rnd k \<and> rnd k < 1"
    and "buildPool jsonParse listItems fetchChapter chapterToSubject [c, c] = Inr pool"
    and "pool \<noteq> []" and "real (length pool) \<le> n"
  shows "\<not> distinct (map q_id (randomPick rnd pool n))"
proof -
  from buildPool_twice [OF assms(2)] obtain qs where qs: "pool = qs @ qs" by blast
  with assms(3) have "qs \<noteq> []" by auto
  with qs have "\<not> distinct (map q_id pool)" by (cases qs) auto
  moreover have "mset (map q_id (randomPick rnd pool n)) = mset (map q_id pool)"
    using randomPick_all [OF assms(1,4)] by simp
  then have "distinct (map q_id (randomPick rnd pool n)) \<longleftrightarrow> distinct (map q_id pool)"
    by (rule mset_eq_imp_distinct_iff)
  ultimately show ?thesis by simp
qed


lemma nonBlankLines_goodFile: "nonBlankLines (goodLine @ [0x0A]) = [goodLine]"
  by (simp add: nonBlankLines_def goodLine_def js_def trim_def isWhiteSpace_def)

lemma buildPool_kinematics_twice:
  "buildPool toyParse toyListItems toyFetch toySubjects [js ''kinematics'', js ''kinematics'']
     = Inr [entry1, entry1]"
proof -
  have s: "orEmpty (toySubjects (js ''kinematics'')) = js ''physics''"
    by (simp add: toySubjects_def orEmpty_def)
  have e: "chapterEntries toyParse toyListItems toyFetch (js ''physics'') (js ''kinematics'')
             = Inr [entry1]"
    by (simp add: chapterEntries_def toyFetch_def parseJsonl_mock_def nonBlankLines_goodFile
        toyParse_def recordEntries_def record1_def entry1_def enumerate_eq_zip)
  show ?thesis by (simp add: s e)
qed

lemma entry1_id: "q_id entry1 = js ''physics::kinematics::kinematics.json::0''"
  by (simp add: entry1_def poolEntry_def record1_def js_def showNat.simps Let_def)

section \<open>Properties of the token codec\<close>

lemma byte_lt: "unat (a :: 8 word) < 256"
  using unsigned_less [of a, where ?'a = nat] by simp

lemma sextets_lt: "x \<in> set (sextets buf) \<Longrightarrow> x < 64"
proof (induction buf arbitrary: x rule: sextets.induct)
  case (1 a b c rest)
  have "unat a < 256" "unat b < 256" "unat c < 256" by (rule byte_lt)+
  then have "unat a div 4 < 64" "unat a mod 4 * 16 + unat b div 16 < 64"
    "unat b mod 16 * 4 + unat c div 64 < 64" "unat c mod 64 < 64"
    by linarith+
  with 1 show ?case by auto
next
  case (2 a b)
  have "unat a < 256" "unat b < 256" by (rule byte_lt)+
  then have "unat a div 4 < 64" "unat a mod 4 * 16 + unat b div 16 < 64"
    "unat b mod 16 * 4 < 64"
    by linarith+
  with 2 show ?case by auto
next
  case (3 a)
  have "unat a < 256" by (rule byte_lt)
  then have "unat a div 4 < 64" "unat a mod 4 * 16 < 64" by linarith+
  with 3 show ?case by auto
next
  case 4
  then show ?case by simp
qed

lemma sextets_length:
  "length (sextets buf) mod 4 = (if length buf mod 3 = 0 then 0 else length buf mod 3 + 1)"
proof (induction buf rule: sextets.induct)
  case (1 a b c rest)
  have "length (a # b # c # rest) mod 3 = length rest mod 3" by (simp; presburger?)
  moreover have "length (sextets (a # b # c # rest)) mod 4 = length (sextets rest) mod 4"
    by (simp; presburger?)
  ultimately show ?case using 1 by (simp only:)
qed simp_all

lemma decode_byte:
  assumes "y < 16"
  shows "((of_nat ((unat (a :: 8 word) div 4 * 4 + (unat a mod 4 * 16 + y) div 16) mod 256)) :: 16 word) = ucast a"
proof -
  have "(unat a mod 4 * 16 + y) div 16 = unat a mod 4" using assms by simp
  then have "unat a div 4 * 4 + (unat a mod 4 * 16 + y) div 16 = unat a" by simp
  moreover have "unat a mod 256 = unat a" using byte_lt [of a] by simp
  ultimately show ?thesis by simp
qed


lemma ucast_byte: "(ucast (ucast (a :: 8 word) :: 16 word) :: 8 word) = a"
  by (rule ucast_up_ucast_id) (simp add: is_up)

lemma decode_sextets: "map ucast (decodeSextets (sextets buf)) = buf"
proof (induction buf rule: sextets.induct)
  case (1 a b c rest)
  have b: "unat b div 16 < 16" and c: "unat c div 64 < 4"
    using byte_lt [of b] byte_lt [of c] by linarith+
  have x: "(of_nat ((unat a div 4 * 4 + (unat a mod 4 * 16 + unat b div 16) div 16) mod 256) :: 16 word)
      = ucast a"
    using b by (rule decode_byte)
  have "(unat b mod 16 * 4 + unat c div 64) div 4 = unat b mod 16" using c by simp
  moreover have "(unat a mod 4 * 16 + unat b div 16) mod 16 = unat b div 16" using b by simp
  ultimately have "(unat a mod 4 * 16 + unat b div 16) mod 16 * 16
      + (unat b mod 16 * 4 + unat c div 64) div 4 = unat b"
    by simp
  moreover have "unat b mod 256 = unat b" using byte_lt [of b] by simp
  ultimately have y: "(of_nat (((unat a mod 4 * 16 + unat b div 16) mod 16 * 16
      + (unat b mod 16 * 4 + unat c div 64) div 4) mod 256) :: 16 word) = ucast b"
    by simp
  have "(unat b mod 16 * 4 + unat c div 64) mod 4 = unat c div 64" using c by simp
  then have "(unat b mod 16 * 4 + unat c div 64) mod 4 * 64 + unat c mod 64 = unat c" by simp
  moreover have "unat c mod 256 = unat c" using byte_lt [of c] by simp
  ultimately have z: "(of_nat (((unat b mod 16 * 4 + unat c div 64) mod 4 * 64 + unat c mod 64) mod 256)
      :: 16 word) = ucast c"
    by simp
  show ?case using 1 by (simp only: sextets.simps decodeSextets.simps append_Cons append_Nil
        x y z list.map map_append ucast_byte)
next
  case (2 a b)
  have b: "unat b div 16 < 16" using byte_lt [of b] by linarith
  have x: "(of_nat ((unat a div 4 * 4 + (unat a mod 4 * 16 + unat b div 16) div 16) mod 256) :: 16 word)
      = ucast a"
    using b by (rule decode_byte)
  have "(unat a mod 4 * 16 + unat b div 16) mod 16 = unat b div 16" using b by simp
  then have "(unat a mod 4 * 16 + unat b div 16) mod 16 * 16 + unat b mod 16 * 4 div 4 = unat b"
    by simp
  moreover have "unat b mod 256 = unat b" using byte_lt [of b] by simp
  ultimately have y: "(of_nat (((unat a mod 4 * 16 + unat b div 16) mod 16 * 16
      + unat b mod 16 * 4 div 4) mod 256) :: 16 word) = ucast b"
    by simp
  show ?case by (simp only: sextets.simps decodeSextets.simps x y list.map ucast_byte)
next
  case (3 a)
  have x: "(of_nat ((unat a div 4 * 4 + (unat a mod 4 * 16 + 0) div 16) mod 256) :: 16 word)
      = ucast a"
    by (rule decode_byte) simp
  then have x': "(of_nat ((unat a div 4 * 4 + unat a mod 4 * 16 div 16) mod 256) :: 16 word)
      = ucast a"
    by (simp only: add_0_right)
  show ?case by (simp only: sextets.simps decodeSextets.simps x' list.map ucast_byte)
next
  case 4
  show ?case by simp
qed

lemma indexOf_nth:
  "distinct xs \<Longrightarrow> n < length xs \<Longrightarrow> indexOf (xs ! n) xs = Some n"
proof (induction xs arbitrary: n)
  case Nil
  then show ?case by simp
next
  case (Cons x xs)
  show ?case
  proof (cases n)
    case 0
    then show ?thesis by simp
  next
    case (Suc m)
    with Cons.prems have m: "m < length xs" and d: "distinct xs" and x: "x \<notin> set xs" by simp_all
    from m x have "xs ! m \<noteq> x" by (metis nth_mem)
    with Cons.IH [OF d m] Suc show ?thesis by simp
  qed
qed

lemma b64alphabet_props:
  "distinct b64alphabet" "length b64alphabet = 64"
  by (simp_all add: b64alphabet_def js_def)

lemma b64alphabet_chars:
  assumes "c \<in> set b64alphabet"
  shows "c \<noteq> 0x3D" "c \<noteq> 0x2D" "c \<noteq> 0x5F" "\<not> isAsciiWhitespace c"
  using assms by (auto simp add: b64alphabet_def js_def isAsciiWhitespace_def)

lemma b64index_b64char: "n < 64 \<Longrightarrow> b64index (b64char n) = Some n"
  unfolding b64index_def b64char_def
  using indexOf_nth [of b64alphabet n] by (simp add: b64alphabet_props)

lemma mapAll_b64index:
  "\<forall>x \<in> set xs. x < 64 \<Longrightarrow> mapAll b64index (map b64char xs) = Some xs"
  by (induction xs) (simp_all add: b64index_b64char)




lemma body_chars:
  assumes "c \<in> set (map b64char (sextets buf))"
  shows "c \<in> set b64alphabet"
proof -
  from assms obtain n where n: "n \<in> set (sextets buf)" and c: "c = b64char n" by auto
  from n have "n < length b64alphabet" by (simp add: sextets_lt b64alphabet_props)
  with c show ?thesis by (simp add: b64char_def)
qed

lemma replaceAll_append: "replaceAll x y (s @ t) = replaceAll x y s @ replaceAll x y t"
  by (simp add: replaceAll_def)

lemma replaceAll_length: "length (replaceAll x y s) = length s"
  by (simp add: replaceAll_def)

lemma replaceAll_pad: "x \<noteq> 0x3D \<Longrightarrow> replaceAll x y (replicate k 0x3D) = replicate k 0x3D"
  by (simp add: replaceAll_def)

lemma url_no_equals:
  assumes "\<forall>c \<in> set s. c \<in> set b64alphabet"
  shows "\<forall>c \<in> set (replaceAll 0x2F 0x5F (replaceAll 0x2B 0x2D s)). c \<noteq> 0x3D"
  using assms b64alphabet_chars(1) by (auto simp add: replaceAll_def)

lemma url_back:
  assumes "\<forall>c \<in> set s. c \<in> set b64alphabet"
  shows "replaceAll 0x5F 0x2F (replaceAll 0x2D 0x2B (replaceAll 0x2F 0x5F (replaceAll 0x2B 0x2D s))) = s"
proof -
  let ?f = "\<lambda>c :: 16 word.
    (let c1 = (if c = 0x2B then 0x2D else c);
         c2 = (if c1 = 0x2F then 0x5F else c1);
         c3 = (if c2 = 0x2D then 0x2B else c2)
     in if c3 = 0x5F then 0x2F else c3)"
  have "replaceAll 0x5F 0x2F (replaceAll 0x2D 0x2B (replaceAll 0x2F 0x5F (replaceAll 0x2B 0x2D s)))
      = map ?f s"
    by (simp add: replaceAll_def Let_def)
  also have "map ?f s = s"
  proof (rule map_idI)
    fix c assume "c \<in> set s"
    with assms have "c \<in> set b64alphabet" by blast
    then have "c \<noteq> 0x2D" "c \<noteq> 0x5F" by (rule b64alphabet_chars)+
    then show "?f c = c" by (simp add: Let_def)
  qed
  finally show ?thesis .
qed

lemma dropWhile_pad:
  assumes "\<forall>c \<in> set u. c \<noteq> (0x3D :: 16 word)"
  shows "dropWhile (\<lambda>c. c = 0x3D) (replicate k 0x3D @ rev u) = rev u"
proof (induction k)
  case 0
  show ?case using assms by (cases "rev u") auto
next
  case (Suc k)
  then show ?case by simp
qed

lemma stripTrailingEquals_pad:
  assumes "\<forall>c \<in> set u. c \<noteq> (0x3D :: 16 word)"
  shows "stripTrailingEquals (u @ replicate k 0x3D) = u"
  using dropWhile_pad [OF assms, of k] by (simp add: stripTrailingEquals_def)



lemma base64urlFromBuffer_body:
  "base64urlFromBuffer buf = replaceAll 0x2F 0x5F (replaceAll 0x2B 0x2D (map b64char (sextets buf)))"
proof -
  let ?body = "map b64char (sextets buf)"
  let ?k = "(3 - length buf mod 3) mod 3"
  let ?u = "replaceAll 0x2F 0x5F (replaceAll 0x2B 0x2D ?body)"
  have a: "\<forall>c \<in> set ?body. c \<in> set b64alphabet"
    using body_chars by blast
  have p1: "replaceAll 0x2B 0x2D (replicate ?k 0x3D) = replicate ?k 0x3D"
    by (rule replaceAll_pad) simp
  have p2: "replaceAll 0x2F 0x5F (replicate ?k 0x3D) = replicate ?k 0x3D"
    by (rule replaceAll_pad) simp
  have "replaceAll 0x2F 0x5F (replaceAll 0x2B 0x2D (toBase64 buf)) = ?u @ replicate ?k 0x3D"
    unfolding toBase64_def by (simp only: replaceAll_append p1 p2)
  then have "base64urlFromBuffer buf = stripTrailingEquals (?u @ replicate ?k 0x3D)"
    by (simp only: base64urlFromBuffer_def)
  also have "\<dots> = ?u"
    using url_no_equals [OF a] by (rule stripTrailingEquals_pad)
  finally show ?thesis .
qed

lemma drop_equals:
  "drop 3 (js ''==='') = []" "drop 1 (js ''==='') = [0x3D, 0x3D]" "drop 2 (js ''==='') = [0x3D]"
  by (simp_all add: js_def)

lemma padding_restored:
  "drop ((length (sextets buf) + 3) mod 4) (js ''==='')
     = replicate ((3 - length buf mod 3) mod 3) 0x3D"
proof -
  let ?l = "length (sextets buf)"
  have e: "(?l + 3) mod 4 = (?l mod 4 + 3) mod 4" by presburger
  consider "length buf mod 3 = 0" | "length buf mod 3 = 1" | "length buf mod 3 = 2"
    by linarith
  then show ?thesis
  proof cases
    case 1
    then have "?l mod 4 = 0" by (simp add: sextets_length)
    with e have "(?l + 3) mod 4 = 3" by simp
    moreover have "(3 - length buf mod 3) mod 3 = 0" using 1 by simp
    ultimately show ?thesis by (simp only: drop_equals replicate_0)
  next
    case 2
    then have "?l mod 4 = 2" by (simp add: sextets_length)
    with e have "(?l + 3) mod 4 = 1" by simp
    moreover have "(3 - length buf mod 3) mod 3 = Suc (Suc 0)" using 2 by simp
    ultimately show ?thesis by (simp only: drop_equals replicate.simps)
  next
    case 3
    then have "?l mod 4 = 3" by (simp add: sextets_length)
    with e have "(?l + 3) mod 4 = 2" by simp
    moreover have "(3 - length buf mod 3) mod 3 = Suc 0" using 3 by simp
    ultimately show ?thesis by (simp only: drop_equals replicate.simps)
  qed
qed


lemma stripEquals2_pad:
  assumes "\<forall>c \<in> set u. c \<noteq> (0x3D :: 16 word)" and "k \<le> 2"
  shows "stripEquals2 (u @ replicate k 0x3D) = u"
proof -
  have h: "rev u = [] \<or> (\<exists>a r. rev u = a # r \<and> a \<noteq> 0x3D)"
  proof (cases "rev u")
    case Nil
    then show ?thesis by simp
  next
    case (Cons a r)
    then have "a \<in> set u" by (metis list.set_intros(1) set_rev)
    with assms(1) Cons show ?thesis by simp
  qed
  from assms(2) consider "k = 0" | "k = 1" | "k = 2" by linarith
  then show ?thesis
  proof cases
    case 1
    from h show ?thesis
    proof
      assume "rev u = []"
      then show ?thesis using 1 by (simp add: stripEquals2_def)
    next
      assume "\<exists>a r. rev u = a # r \<and> a \<noteq> 0x3D"
      then obtain a r where ar: "rev u = a # r" "a \<noteq> 0x3D" by blast
      then show ?thesis using 1 by (cases r) (simp_all add: stripEquals2_def)
    qed
  next
    case 2
    from h show ?thesis
    proof
      assume "rev u = []"
      then show ?thesis using 2 by (simp add: stripEquals2_def)
    next
      assume "\<exists>a r. rev u = a # r \<and> a \<noteq> 0x3D"
      then obtain a r where ar: "rev u = a # r" "a \<noteq> 0x3D" by blast
      then have "u = rev (a # r)" by (metis rev_rev_ident)
      with ar show ?thesis using 2 by (simp add: stripEquals2_def)
    qed
  next
    case 3
    have "rev (u @ replicate k 0x3D) = 0x3D # 0x3D # rev u"
      using 3 by (simp add: numeral_2_eq_2)
    then show ?thesis by (simp add: stripEquals2_def)
  qed
qed

lemma mod4_add:
  assumes "(l :: nat) mod 4 = r"
  shows "(l + k) mod 4 = (r + k) mod 4"
proof -
  have "(l mod 4 + k) mod 4 = (l + k) mod 4" by (rule mod_add_left_eq)
  with assms show ?thesis by simp
qed

lemma atob_padded:
  "atob (map b64char (sextets buf) @ replicate ((3 - length buf mod 3) mod 3) 0x3D)
     = Some (decodeSextets (sextets buf))"
proof -
  let ?body = "map b64char (sextets buf)"
  let ?k = "(3 - length buf mod 3) mod 3"
  have a: "\<forall>c \<in> set ?body. c \<in> set b64alphabet"
    using body_chars by blast
  then have ne: "\<forall>c \<in> set ?body. c \<noteq> 0x3D"
    using b64alphabet_chars(1) by blast
  from a have nw: "\<forall>c \<in> set ?body. \<not> isAsciiWhitespace c"
    using b64alphabet_chars(4) by blast
  have k: "?k \<le> 2" by linarith
  have ws: "filter (\<lambda>c. \<not> isAsciiWhitespace c) (?body @ replicate ?k 0x3D) = ?body @ replicate ?k 0x3D"
    using nw by (simp add: isAsciiWhitespace_def filter_id_conv)
  consider "length buf mod 3 = 0" | "length buf mod 3 = 1" | "length buf mod 3 = 2"
    by linarith
  then have len: "(length (sextets buf) + ?k) mod 4 = 0 \<and> length (sextets buf) mod 4 \<noteq> 1"
  proof cases
    case 1
    then have "length (sextets buf) mod 4 = 0" "?k = 0" by (simp_all add: sextets_length)
    then show ?thesis by simp
  next
    case 2
    then have m: "length (sextets buf) mod 4 = 2" and kk: "?k = 2" by (simp_all add: sextets_length)
    have "(length (sextets buf) + 2) mod 4 = (2 + 2) mod 4" using m by (rule mod4_add)
    then have "(length (sextets buf) + 2) mod 4 = 0" by simp
    with m show ?thesis by (simp only: kk) simp
  next
    case 3
    then have m: "length (sextets buf) mod 4 = 3" and kk: "?k = 1" by (simp_all add: sextets_length)
    have "(length (sextets buf) + 1) mod 4 = (3 + 1) mod 4" using m by (rule mod4_add)
    then have "(length (sextets buf) + 1) mod 4 = 0" by simp
    with m show ?thesis by (simp only: kk) simp
  qed
  have sx: "mapAll b64index ?body = Some (sextets buf)"
    by (rule mapAll_b64index) (simp add: sextets_lt)
  have st: "stripEquals2 (?body @ replicate ?k 0x3D) = ?body"
    using ne k by (rule stripEquals2_pad)
  have l0: "length (?body @ replicate ?k 0x3D) mod 4 = 0" using len by simp
  have l1: "length ?body mod 4 \<noteq> 1" using len by simp
  show ?thesis
    unfolding atob_def Let_def
    by (simp only: ws l0 st l1 sx if_True if_False option.map simp_thms)
qed

lemma base64url_roundtrip:
  "base64urlToUint8Array (base64urlFromBuffer buf) = Some buf"
proof -
  let ?body = "map b64char (sextets buf)"
  have a: "\<forall>c \<in> set ?body. c \<in> set b64alphabet"
    using body_chars by blast
  have l: "length (base64urlFromBuffer buf) = length (sextets buf)"
    by (simp add: base64urlFromBuffer_body replaceAll_length)
  have b: "replaceAll 0x5F 0x2F (replaceAll 0x2D 0x2B (base64urlFromBuffer buf)) = ?body"
    unfolding base64urlFromBuffer_body using a by (rule url_back)
  show ?thesis
    unfolding base64urlToUint8Array_def Let_def
    by (simp only: b l padding_restored atob_padded option.map decode_sextets simp_thms)
qed


text \<open>
  Claim C1. For every payload, decoding the token that the assembly makes of it
  (JSON text, gzip, base64 with \<open>+\<close> and \<open>/\<close> replaced by \<open>-\<close> and \<open>_\<close> and the padding
  stripped) gives the payload back. The base64url layer is the code of the repository
  and is inverted for every byte sequence (\<open>base64url_roundtrip\<close>); the compressor and
  the JSON functions are the platform's, and are taken to invert each other on the
  payload.
\<close>

theorem token_roundtrip:
  fixes payload :: MockPayload
  assumes "gunzip (gzipSync (jsonBytes payload)) = Some (jsonBytes payload)"
    and "jsonParse (jsonBytes payload) = Some payload"
  shows "gunzipToJson gunzip jsonParse (encodeToken jsonBytes gzipSync payload) = Some payload"
  unfolding gunzipToJson_def encodeToken_def
  by (simp only: base64url_roundtrip option.case assms)

theorem token_roundtrip_witness:
  "encodeToken toyJsonBytes toyGzip mock0 = js ''H4sIe30''
   \<and> gunzipToJson toyGunzip toyJsonParse (js ''H4sIe30'') = Some mock0"
proof -
  have e: "encodeToken toyJsonBytes toyGzip mock0 = js ''H4sIe30''"
    by (simp add: encodeToken_def toyJsonBytes_def toyGzip_def base64urlFromBuffer_def
        toBase64_def b64char_def b64alphabet_def js_def replaceAll_def stripTrailingEquals_def)
  have g: "toyGunzip (toyGzip (toyJsonBytes mock0)) = Some (toyJsonBytes mock0)"
    by (simp add: toyGunzip_def toyGzip_def)
  have p: "toyJsonParse (toyJsonBytes mock0) = Some mock0"
    by (simp add: toyJsonParse_def toyJsonBytes_def)
  from token_roundtrip [of toyGunzip toyGzip toyJsonBytes mock0 toyJsonParse, OF g p] e
  show ?thesis by simp
qed

section \<open>Properties of the request handler\<close>

lemma mem_nonempty: "x \<in> set xs \<Longrightarrow> xs \<noteq> []"
  by auto

text \<open>
  Claim C5 on the code. In the assembly route one line that does not parse makes
  \<open>parseJsonl\<close> throw, so the pool is not built and the request ends in the exception,
  also when other lines of the same file parse; the topic route answers the same file
  with status 200 and the records of the lines that parse.
\<close>

theorem malformed_line_fatal_in_assembly:
  assumes "bad \<in> set (nonBlankLines t)" and "jsonParse bad = Inl msg"
    and "good \<in> set (nonBlankLines t)" and "jsonParse good = Inr v"
    and "c \<in> set requested" and "orEmpty (chapterToSubject c) \<noteq> []"
    and "fetchChapter (orEmpty (chapterToSubject c)) c = Inr t"
  shows "(\<exists>m. parseJsonl_mock jsonParse t = Inl m)
         \<and> (\<exists>m. GET_mock jsonParse listItems fetchChapter rnd isoString now chapterToSubject
                  requested maxParam durationParam = Thrown m)
         \<and> fst (GET_topic jsonParse (Inr t)) = 200"
proof -
  let ?res = "filter (\<lambda>c. orEmpty (chapterToSubject c) \<noteq> []) requested"
  have c: "c \<in> set ?res" using assms(5,6) by simp
  have "(\<exists>m. parseJsonl_mock jsonParse t = Inl m)
      \<and> (\<exists>m. buildPool jsonParse listItems fetchChapter chapterToSubject ?res = Inl m)
      \<and> fst (GET_topic jsonParse (Inr t)) = 200"
    using assms(1-4) c assms(7) by (rule assembly_parse_throws)
  then obtain m where p: "\<exists>m. parseJsonl_mock jsonParse t = Inl m"
    and m: "buildPool jsonParse listItems fetchChapter chapterToSubject ?res = Inl m"
    and g: "fst (GET_topic jsonParse (Inr t)) = 200"
    by blast
  from c have ne1: "?res \<noteq> []" by (rule mem_nonempty)
  from assms(5) have ne2: "requested \<noteq> []" by (rule mem_nonempty)
  note ne = ne1 ne2
  have "GET_mock jsonParse listItems fetchChapter rnd isoString now chapterToSubject
          requested maxParam durationParam = Thrown m"
    using ne m by (simp add: GET_mock_def Let_def)
  with p g show ?thesis by blast
qed

theorem malformed_line_fatal_in_assembly_witness:
  "parseJsonl_mock toyParse mixedFile = Inl (js ''Unexpected end of JSON input'')
   \<and> GET_mock toyParse toyListItems mixedFetch halves toyIso 0 toySubjects [js ''kinematics'']
         None None
       = Thrown (js ''Unexpected end of JSON input'')
   \<and> GET_topic toyParse (Inr mixedFile)
       = (200, TopicData 1 [(2, js ''Unexpected end of JSON input'')] [record1])"
proof -
  have p: "toyParse badLine = Inl (js ''Unexpected end of JSON input'')"
    "toyParse goodLine = Inr record1"
    by (simp_all add: toyParse_def goodLine_neq_badLine)
  have s: "orEmpty (toySubjects (js ''kinematics'')) = js ''physics''"
    by (simp add: toySubjects_def orEmpty_def)
  have s': "orEmpty (toySubjects (js ''kinematics'')) \<noteq> []"
    by (simp add: s) (simp add: js_def)
  have a: "parseJsonl_mock toyParse mixedFile = Inl (js ''Unexpected end of JSON input'')"
    by (simp add: parseJsonl_mock_def nonBlankLines_mixedFile p)
  have e: "chapterEntries toyParse toyListItems mixedFetch (js ''physics'') (js ''kinematics'')
       = Inl (js ''Unexpected end of JSON input'')"
    by (simp add: chapterEntries_def mixedFetch_def a)
  have b: "GET_mock toyParse toyListItems mixedFetch halves toyIso 0 toySubjects [js ''kinematics'']
         None None
       = Thrown (js ''Unexpected end of JSON input'')"
    using s' by (simp add: GET_mock_def Let_def s e)
  have c: "GET_topic toyParse (Inr mixedFile)
       = (200, TopicData 1 [(2, js ''Unexpected end of JSON input'')] [record1])"
    by (simp add: GET_topic_def parseJsonl_topic_def nonBlankLines_mixedFile p Let_def)
  have "fst (GET_topic toyParse (Inr mixedFile)) = 200"
    using malformed_line_fatal_in_assembly
      [of badLine mixedFile toyParse "js ''Unexpected end of JSON input''" goodLine record1
          "js ''kinematics''" "[js ''kinematics'']" toySubjects mixedFetch]
    by (simp add: nonBlankLines_mixedFile p mixedFetch_def s')
  with a b c show ?thesis by simp
qed

text \<open>
  Claim C6 on the code. The sampler returns a sub-multiset of the pool, at most
  min(requested, poolSize) questions, so an exam has no duplicate id when the pool has
  none; but the pool is filled once per requested chapter with ids built from subject,
  chapter, file and index only, so a chapter that is requested twice puts every
  question of it into the pool twice under one id, and an exam that takes the whole
  pool repeats ids.
\<close>

theorem repeated_chapter_repeats_ids:
  assumes "\<forall>k. 0 \<le> rnd k \<and> rnd k < 1"
    and "orEmpty (chapterToSubject c) \<noteq> []"
    and "buildPool jsonParse listItems fetchChapter chapterToSubject [c, c] = Inr pool"
    and "pool \<noteq> []" and "length pool \<le> 10"
  shows "\<exists>p. GET_mock jsonParse listItems fetchChapter rnd isoString now chapterToSubject
               [c, c] None durationParam = Share p
             \<and> real (length (questions p)) \<le> min 10 (real (length pool))
             \<and> \<not> distinct (map q_id (questions p))"
proof -
  have mx: "numVal (maxQuestionsOf None) = 10"
    by (simp add: maxQuestionsOf_def numberParam_def orElse_def)
  have le: "real (length pool) \<le> 10" using assms(5) by simp
  have d: "\<not> distinct (map q_id (randomPick rnd pool 10))"
    using assms(1,3,4) le by (rule sampler_repeats_ids)
  have l: "real (length (randomPick rnd pool 10)) \<le> min 10 (real (length pool))"
    using assms(1) by (rule randomPick_length) simp
  have "GET_mock jsonParse listItems fetchChapter rnd isoString now chapterToSubject
          [c, c] None durationParam
        = Share \<lparr> createdAt = isoString now,
                  expiresAt = isoString (now + numVal (durationSecondsOf durationParam) * 1000),
                  durationSeconds = numVal (durationSecondsOf durationParam),
                  maxQuestions = 10,
                  chapters = [c, c],
                  questions = randomPick rnd pool 10 \<rparr>"
    using assms(2,4) by (simp add: GET_mock_def Let_def mx assms(3) del: buildPool.simps)
  with d l show ?thesis by simp
qed

theorem repeated_chapter_repeats_ids_witness:
  "GET_mock toyParse toyListItems toyFetch halves toyIso 0 toySubjects
       [js ''kinematics'', js ''kinematics''] None None
     = Share \<lparr> createdAt = js ''1970-01-01T00:00:00.000Z'',
               expiresAt = js ''1970-01-01T00:20:00.000Z'',
               durationSeconds = 1200, maxQuestions = 10,
               chapters = [js ''kinematics'', js ''kinematics''],
               questions = [entry1, entry1] \<rparr>
   \<and> map q_id [entry1, entry1]
     = [js ''physics::kinematics::kinematics.json::0'', js ''physics::kinematics::kinematics.json::0'']"
proof -
  have r: "\<forall>k. 0 \<le> halves k \<and> halves k < 1" by (simp add: halves_def)
  have s': "orEmpty (toySubjects (js ''kinematics'')) \<noteq> []"
    by (simp add: toySubjects_def orEmpty_def js_def)
  from repeated_chapter_repeats_ids
    [OF r s' buildPool_kinematics_twice, of toyIso 0 None]
  obtain p where p: "GET_mock toyParse toyListItems toyFetch halves toyIso 0 toySubjects
       [js ''kinematics'', js ''kinematics''] None None = Share p"
    by auto
  have b: "randomPick halves [entry1, entry1] 10 = [entry1, entry1]"
    by (simp add: randomPick_def halves_def sliceTo_def numeral_2_eq_2)
  have mx: "numVal (maxQuestionsOf None) = 10" "numVal (durationSecondsOf None) = 1200"
    by (simp_all add: maxQuestionsOf_def durationSecondsOf_def numberParam_def orElse_def)
  have g: "GET_mock toyParse toyListItems toyFetch halves toyIso 0 toySubjects
       [js ''kinematics'', js ''kinematics''] None None
     = Share \<lparr> createdAt = js ''1970-01-01T00:00:00.000Z'',
               expiresAt = js ''1970-01-01T00:20:00.000Z'',
               durationSeconds = 1200, maxQuestions = 10,
               chapters = [js ''kinematics'', js ''kinematics''],
               questions = [entry1, entry1] \<rparr>"
    using s' p
    by (simp add: GET_mock_def Let_def mx buildPool_kinematics_twice b toyIso_def
        del: buildPool.simps)
  show ?thesis
  proof (intro conjI)
    show "GET_mock toyParse toyListItems toyFetch halves toyIso 0 toySubjects
       [js ''kinematics'', js ''kinematics''] None None
     = Share \<lparr> createdAt = js ''1970-01-01T00:00:00.000Z'',
               expiresAt = js ''1970-01-01T00:20:00.000Z'',
               durationSeconds = 1200, maxQuestions = 10,
               chapters = [js ''kinematics'', js ''kinematics''],
               questions = [entry1, entry1] \<rparr>"
      by (rule g)
    show "map q_id [entry1, entry1]
     = [js ''physics::kinematics::kinematics.json::0'', js ''physics::kinematics::kinematics.json::0'']"
      by (simp only: list.map entry1_id)
  qed
qed

section \<open>Scenario of the scoring engine\<close>

text \<open>Two questions with the correct answers A and 42, answered a and 43.\<close>


lemma scoreLoop_mock0:
  "scoreLoop toUpperCaseAscii answers0 0 (questions mock0)
     \<lparr> acc_attempted = 0, acc_correct = 0, acc_wrong = 0, acc_unattempted = 0, acc_breakdown = [] \<rparr>
   = \<lparr> acc_attempted = 2, acc_correct = 1, acc_wrong = 1, acc_unattempted = 0,
       acc_breakdown =
         [\<lparr> row_index = 0, row_id = js ''q1'', row_chapter = js ''kinematics'', row_type = Value,
            userAnswer = js ''a'', row_correctAnswer = js ''A'', verdict = Correct, marks = 4 \<rparr>,
          \<lparr> row_index = 1, row_id = js ''q2'', row_chapter = js ''kinematics'', row_type = Value,
            userAnswer = js ''43'', row_correctAnswer = js ''42'', verdict = Wrong, marks = - 1 \<rparr>] \<rparr>"
  by (simp add: mock0_def question0_def answers0_def scoreStep_def Let_def norm_def trim_def
      isWhiteSpace_def toUpperCaseAscii_def js_def orDash_def MARKS_CORRECT_def MARKS_WRONG_def)

lemma toDouble_exact_values:
  "toDouble (1 / 2) = 1 / 2" "toDouble (3 / 8) = 3 / 8" "toDouble (75 / 2) = 75 / 2"
  "toDouble 375 = 375" "toDouble 500 = 500" "toDouble 50 = 50"
proof -
  show "toDouble (1 / 2) = 1 / 2"
    by (subst toDouble_eval [of "- 1"]) (simp_all add: pow2_def roundTiesToEven_def)
  show "toDouble (3 / 8) = 3 / 8"
    by (subst toDouble_eval [of "- 2"]) (simp_all add: pow2_def roundTiesToEven_def)
  show "toDouble (75 / 2) = 75 / 2"
    by (subst toDouble_eval [of 5]) (simp_all add: pow2_def roundTiesToEven_def)
  show "toDouble 375 = 375"
    by (subst toDouble_eval [of 8]) (simp_all add: pow2_def roundTiesToEven_def)
  show "toDouble 500 = 500"
    by (subst toDouble_eval [of 8]) (simp_all add: pow2_def roundTiesToEven_def)
  show "toDouble 50 = 50"
    by (subst toDouble_eval [of 5]) (simp_all add: pow2_def roundTiesToEven_def)
qed

lemma scoreLoop_mock0_wrong:
  "scoreLoop toUpperCaseAscii answersWrong 0 (questions mock0)
     \<lparr> acc_attempted = 0, acc_correct = 0, acc_wrong = 0, acc_unattempted = 0, acc_breakdown = [] \<rparr>
   = \<lparr> acc_attempted = 2, acc_correct = 0, acc_wrong = 2, acc_unattempted = 0,
       acc_breakdown =
         [\<lparr> row_index = 0, row_id = js ''q1'', row_chapter = js ''kinematics'', row_type = Value,
            userAnswer = js ''B'', row_correctAnswer = js ''A'', verdict = Wrong, marks = - 1 \<rparr>,
          \<lparr> row_index = 1, row_id = js ''q2'', row_chapter = js ''kinematics'', row_type = Value,
            userAnswer = js ''43'', row_correctAnswer = js ''42'', verdict = Wrong, marks = - 1 \<rparr>] \<rparr>"
  by (simp add: mock0_def question0_def answersWrong_def scoreStep_def Let_def norm_def trim_def
      isWhiteSpace_def toUpperCaseAscii_def js_def orDash_def MARKS_CORRECT_def MARKS_WRONG_def)

theorem computeResult_marks_bounds_witness:
  "netMarks (computeResult toUpperCaseAscii mock0 answersWrong) = - 2
   \<and> scorePercent (computeResult toUpperCaseAscii mock0 answersWrong) = 0
   \<and> netMarks (computeResult toUpperCaseAscii mock0 answers0) = 3
   \<and> maxMarks (computeResult toUpperCaseAscii mock0 answers0) = 8
   \<and> scorePercent (computeResult toUpperCaseAscii mock0 answers0) = 37.5
   \<and> accuracyPercent (computeResult toUpperCaseAscii mock0 answers0) = 50"
proof -
  have q: "length (questions mock0) = 2" by (simp add: mock0_def)
  have w: "netMarks (computeResult toUpperCaseAscii mock0 answersWrong) = - 2"
    unfolding computeResult_def Let_def scoreLoop_mock0_wrong
    by (simp add: MARKS_CORRECT_def MARKS_WRONG_def)
  with computeResult_marks_bounds [of toUpperCaseAscii mock0 answersWrong]
  have z: "scorePercent (computeResult toUpperCaseAscii mock0 answersWrong) = 0" by simp
  have n: "netMarks (computeResult toUpperCaseAscii mock0 answers0) = 3"
    and m: "maxMarks (computeResult toUpperCaseAscii mock0 answers0) = 8"
    unfolding computeResult_def Let_def scoreLoop_mock0
    by (simp_all add: q MARKS_CORRECT_def MARKS_WRONG_def)
  have r: "mathRound 375 = 375" "mathRound 500 = 500" by (simp_all add: mathRound_def)
  have a: "accuracyPercent (computeResult toUpperCaseAscii mock0 answers0) = 50"
    unfolding computeResult_def Let_def scoreLoop_mock0
    by (simp add: jsDiv_def jsMul_def toDouble_exact_values r)
  have s: "scorePercent (computeResult toUpperCaseAscii mock0 answers0) = 37.5"
    unfolding computeResult_def Let_def scoreLoop_mock0
    by (simp add: q MARKS_CORRECT_def MARKS_WRONG_def jsDiv_def jsMul_def toDouble_exact_values r)
  from w z n m a s show ?thesis by simp
qed

text \<open>
  Double rounding is visible at 20 questions with 6 correct and 1 wrong answer
  (netMarks 23, maxMarks 80): the quotient is rounded, then the product with 100, then
  the product with 10, which ends below 287.5, so scorePercent is the double 28.7, and
  not the 28.8 that the same formula gives in exact arithmetic.
\<close>

lemma score_chain_23_80:
  "jsDiv (mathRound (jsMul (jsMul (jsDiv 23 80) 100) 10)) 10 = 8078331831595827 / 2 ^ 48"
proof -
  have a: "jsDiv 23 80 = 5179139571476070 / 2 ^ 54"
    unfolding jsDiv_def
    by (subst toDouble_eval [of "- 2"]) (simp_all add: pow2_def roundTiesToEven_def)
  have b: "jsMul (5179139571476070 / 2 ^ 54) 100 = 8092405580431359 / 2 ^ 48"
    unfolding jsMul_def
    by (subst toDouble_eval [of 4]) (simp_all add: pow2_def roundTiesToEven_def)
  have c: "jsMul (8092405580431359 / 2 ^ 48) 10 = 5057753487769599 / 2 ^ 44"
    unfolding jsMul_def
    by (subst toDouble_eval [of 8]) (simp_all add: pow2_def roundTiesToEven_def)
  have d: "mathRound (5057753487769599 / 2 ^ 44) = 287"
    by (simp add: mathRound_def)
  have e: "jsDiv 287 10 = 8078331831595827 / 2 ^ 48"
    unfolding jsDiv_def
    by (subst toDouble_eval [of 4]) (simp_all add: pow2_def roundTiesToEven_def)
  show ?thesis by (simp only: a b c d e)
qed


lemma scoreLoop_mock20:
  "acc_correct (scoreLoop toUpperCaseAscii answers20 0 (questions mock20)
     \<lparr> acc_attempted = 0, acc_correct = 0, acc_wrong = 0, acc_unattempted = 0, acc_breakdown = [] \<rparr>) = 6"
  "acc_wrong (scoreLoop toUpperCaseAscii answers20 0 (questions mock20)
     \<lparr> acc_attempted = 0, acc_correct = 0, acc_wrong = 0, acc_unattempted = 0, acc_breakdown = [] \<rparr>) = 1"
  by (simp_all add: mock20_def mock0_def question0_def answers20_def scoreStep_def Let_def norm_def
      trim_def isWhiteSpace_def toUpperCaseAscii_def js_def orDash_def)

lemma scorePercent_double_rounding:
  "netMarks (computeResult toUpperCaseAscii mock20 answers20) = 23
   \<and> maxMarks (computeResult toUpperCaseAscii mock20 answers20) = 80
   \<and> scorePercent (computeResult toUpperCaseAscii mock20 answers20) = 8078331831595827 / 2 ^ 48
   \<and> scorePercent (computeResult toUpperCaseAscii mock20 answers20) < 28.75
   \<and> max 0 (mathRound (23 / 80 * 1000) / 10) = (28.8 :: real)"
proof -
  have q: "length (questions mock20) = 20" by (simp add: mock20_def)
  have n: "netMarks (computeResult toUpperCaseAscii mock20 answers20) = 23"
    and m: "maxMarks (computeResult toUpperCaseAscii mock20 answers20) = 80"
    unfolding computeResult_def Let_def
    by (simp_all add: scoreLoop_mock20 q MARKS_CORRECT_def MARKS_WRONG_def)
  have "scorePercent (computeResult toUpperCaseAscii mock20 answers20)
      = max 0 (jsDiv (mathRound (jsMul (jsMul (jsDiv 23 80) 100) 10)) 10)"
    unfolding computeResult_def Let_def
    by (simp add: scoreLoop_mock20 q MARKS_CORRECT_def MARKS_WRONG_def)
  then have s: "scorePercent (computeResult toUpperCaseAscii mock20 answers20)
      = 8078331831595827 / 2 ^ 48"
    by (simp only: score_chain_23_80) simp
  have e: "max 0 (mathRound (23 / 80 * 1000) / 10) = (28.8 :: real)"
    by (simp add: mathRound_def)
  from n m s e show ?thesis by simp
qed

theorem computeResult_partition_witness:
  "attempted (computeResult toUpperCaseAscii mock0 answers0) = 2
   \<and> unattempted (computeResult toUpperCaseAscii mock0 answers0) = 0
   \<and> correct (computeResult toUpperCaseAscii mock0 answers0) = 1
   \<and> wrong (computeResult toUpperCaseAscii mock0 answers0) = 1
   \<and> map row_id (breakdown (computeResult toUpperCaseAscii mock0 answers0)) = [js ''q1'', js ''q2'']"
proof -
  have c: "attempted (computeResult toUpperCaseAscii mock0 answers0) = 2"
    "unattempted (computeResult toUpperCaseAscii mock0 answers0) = 0"
    "correct (computeResult toUpperCaseAscii mock0 answers0) = 1"
    "wrong (computeResult toUpperCaseAscii mock0 answers0) = 1"
    unfolding computeResult_def Let_def scoreLoop_mock0 by simp_all
  have "map q_id (questions mock0) = [js ''q1'', js ''q2'']"
    by (simp add: mock0_def question0_def)
  with computeResult_partition [of toUpperCaseAscii mock0 answers0] c
  show ?thesis by simp
qed

end
